theory Spec2Isabelle
  imports Complex_Main "HOL-Library.Multiset"
begin

section \<open>Movement and flocking of Permafrost Engine (movement.c)\<close>

text \<open>
  A shallow embedding of the flocking core: the flock registry, the table of per-entity
  movement states, the steering forces and the 30 Hz tick.

  Conventions of the embedding.
  \<^item> A C \<open>float\<close> is a real number. Rounding is not modelled. A float division whose
    divisor is zero gives an infinity or a NaN in C and the program carries on with it;
    the reals have neither, so the model stops there with the error \<open>DivisionByZero\<close>.
  \<^item> A failed \<open>assert\<close> aborts the program; the model stops with \<open>AssertionFailed\<close>.
  \<^item> An entity pointer is the entity's \<open>uid\<close> (uids are unique), and the entities live
    in a store from uid to entity, so that a position written through one pointer is seen
    through every other.
  \<^item> A khash table of a flock is the list of its keys in iteration order, without
    duplicates. The order in which khash iterates is the order of its buckets; the model
    lists the members of a new flock in the order of their insertion, and no theorem
    depends on the order.
  \<^item> \<open>E_Entity_Notify\<close> appends to a log of events.
  \<^item> The orientation written by the tick (\<open>dir_quat_from_velocity\<close>) is read nowhere
    in this file and is left out of the entity.
\<close>

subsection \<open>Vector utilities\<close>

type_synonym vec2 = "real \<times> real"
type_synonym vec3 = "real \<times> real \<times> real"

datatype error = AssertionFailed | DivisionByZero

text \<open>
  Modelled from the spec: the vector library (\<open>PFM_Vec2_Len\<close>, \<open>PFM_Vec2_Add\<close>,
  \<open>PFM_Vec2_Sub\<close>, \<open>PFM_Vec2_Scale\<close>, \<open>PFM_Vec2_Normal\<close>) is not among the sources;
  the spec names them as 2D vector operations: length, normalize, scale. Normalising
  divides each component by the length, so the zero vector has no normal.
\<close>

fun PFM_Vec2_Len :: "vec2 \<Rightarrow> real" where
  "PFM_Vec2_Len (x, y) = sqrt (x * x + y * y)"

fun PFM_Vec2_Add :: "vec2 \<Rightarrow> vec2 \<Rightarrow> vec2" where
  "PFM_Vec2_Add (a, b) (c, d) = (a + c, b + d)"

fun PFM_Vec2_Sub :: "vec2 \<Rightarrow> vec2 \<Rightarrow> vec2" where
  "PFM_Vec2_Sub (a, b) (c, d) = (a - c, b - d)"

fun PFM_Vec2_Scale :: "vec2 \<Rightarrow> real \<Rightarrow> vec2" where
  "PFM_Vec2_Scale (a, b) s = (a * s, b * s)"

definition PFM_Vec2_Normal :: "vec2 \<Rightarrow> error + vec2" where
  "PFM_Vec2_Normal v =
     (if PFM_Vec2_Len v = 0 then Inl DivisionByZero
      else Inr (fst v / PFM_Vec2_Len v, snd v / PFM_Vec2_Len v))"

definition ENTITY_MASS :: real where "ENTITY_MASS = 1"
definition EPSILON :: real where "EPSILON = 1 / 1024"
definition MAX_FORCE :: real where "MAX_FORCE = 1"

definition MOVE_SEPARATION_FORCE_SCALE :: real where "MOVE_SEPARATION_FORCE_SCALE = 16 / 10"
definition MOVE_ARRIVE_FORCE_SCALE :: real where "MOVE_ARRIVE_FORCE_SCALE = 7 / 10"
definition MOVE_COHESION_FORCE_SCALE :: real where "MOVE_COHESION_FORCE_SCALE = 1 / 10"
definition MOVE_ALIGN_FORCE_SCALE :: real where "MOVE_ALIGN_FORCE_SCALE = 1 / 10"
definition SETTLE_SEPARATION_FORCE_SCALE :: real where "SETTLE_SEPARATION_FORCE_SCALE = 32 / 10"

definition ARRIVE_THRESHOLD_DIST :: real where "ARRIVE_THRESHOLD_DIST = 5"
definition MOVE_SEPARATION_BUFFER_DIST :: real where "MOVE_SEPARATION_BUFFER_DIST = 8"
definition SETTLE_SEPARATION_BUFFER_DIST :: real where "SETTLE_SEPARATION_BUFFER_DIST = 14"
definition COHESION_NEIGHBOUR_RADIUS :: real where "COHESION_NEIGHBOUR_RADIUS = 25"
definition ALIGN_NEIGHBOUR_RADIUS :: real where "ALIGN_NEIGHBOUR_RADIUS = 10"
definition ARRIVE_SLOWING_RADIUS :: real where "ARRIVE_SLOWING_RADIUS = 10"
definition ADJACENCY_SEP_DIST :: real where "ADJACENCY_SEP_DIST = 10"
definition SETTLE_STOP_TOLERANCE :: real where "SETTLE_STOP_TOLERANCE = 5 / 100"

text \<open>
  \<open>vec2_truncate\<close>: a vector longer than \<open>max_len\<close> is normalised and scaled to
  \<open>max_len\<close>; any other vector is left alone.
\<close>

definition vec2_truncate :: "vec2 \<Rightarrow> real \<Rightarrow> error + vec2" where
  "vec2_truncate v max_len =
     (if PFM_Vec2_Len v > max_len then
        (case PFM_Vec2_Normal v of
           Inl e \<Rightarrow> Inl e
         | Inr n \<Rightarrow> Inr (PFM_Vec2_Scale n max_len))
      else Inr v)"

subsection \<open>Entities, movement states, flocks\<close>

datatype arrival_state = STATE_MOVING | STATE_SETTLING | STATE_ARRIVED

record movestate =
  velocity :: vec2
  state :: arrival_state

text \<open>
  Of \<open>struct entity\<close> (declared in a header that is not among the sources) the fields
  that movement.c reads or writes; \<open>static\<close> is the bit \<open>ENTITY_FLAG_STATIC\<close> of \<open>flags\<close>.
\<close>

record entity =
  pos :: vec3
  max_speed :: real
  selection_radius :: real
  static :: bool

record flock =
  ents :: "nat list"
  target_xz :: vec2

type_synonym state_table = "nat \<rightharpoonup> movestate"
type_synonym entity_store = "nat \<Rightarrow> entity"

definition xz :: "entity \<Rightarrow> vec2" where
  \<comment> \<open>\<open>(vec2_t){ent->pos.x, ent->pos.z}\<close>\<close>
  "xz e = (fst (pos e), snd (snd (pos e)))"

subsection \<open>Steering forces\<close>

text \<open>\<open>ent->max_speed / tick_res\<close>, with \<open>tick_res\<close> an \<open>int\<close>.\<close>

definition speed_per_tick :: "entity \<Rightarrow> int \<Rightarrow> error + real" where
  "speed_per_tick e tick_res =
     (if tick_res = 0 then Inl DivisionByZero else Inr (max_speed e / real_of_int tick_res))"

definition seek_force :: "state_table \<Rightarrow> entity_store \<Rightarrow> nat \<Rightarrow> flock \<Rightarrow> int \<Rightarrow> error + vec2" where
  "seek_force tbl es ent fl tick_res =
     (case PFM_Vec2_Normal (PFM_Vec2_Sub (target_xz fl) (xz (es ent))) of
        Inl e \<Rightarrow> Inl e
      | Inr n \<Rightarrow>
         (case speed_per_tick (es ent) tick_res of
            Inl e \<Rightarrow> Inl e
          | Inr s \<Rightarrow>
             (case tbl ent of
                None \<Rightarrow> Inl AssertionFailed
              | Some ms \<Rightarrow> Inr (PFM_Vec2_Sub (PFM_Vec2_Scale n s) (velocity ms)))))"

definition arrive_force :: "state_table \<Rightarrow> entity_store \<Rightarrow> nat \<Rightarrow> flock \<Rightarrow> int \<Rightarrow> error + vec2" where
  "arrive_force tbl es ent fl tick_res =
     (let desired_velocity = PFM_Vec2_Sub (target_xz fl) (xz (es ent));
          distance = PFM_Vec2_Len desired_velocity
      in case PFM_Vec2_Normal desired_velocity of
           Inl e \<Rightarrow> Inl e
         | Inr n \<Rightarrow>
            (case speed_per_tick (es ent) tick_res of
               Inl e \<Rightarrow> Inl e
             | Inr s \<Rightarrow>
                (let dv = PFM_Vec2_Scale n s;
                     dv' = (if distance < ARRIVE_SLOWING_RADIUS
                            then PFM_Vec2_Scale dv (distance / ARRIVE_SLOWING_RADIUS)
                            else dv)
                 in case tbl ent of
                      None \<Rightarrow> Inl AssertionFailed
                    | Some ms \<Rightarrow> vec2_truncate (PFM_Vec2_Sub dv' (velocity ms)) MAX_FORCE)))"

text \<open>
  The \<open>kh_foreach\<close> of \<open>alignment_force\<close>: the sum of the velocities of the flock-mates
  within \<open>ALIGN_NEIGHBOUR_RADIUS\<close> that move faster than \<open>EPSILON\<close>, and their number.
  A flock-mate in range without a movement state trips the assertion.
\<close>

fun alignment_loop ::
  "state_table \<Rightarrow> entity_store \<Rightarrow> nat \<Rightarrow> nat list \<Rightarrow> vec2 \<times> nat \<Rightarrow> error + (vec2 \<times> nat)" where
  "alignment_loop tbl es ent [] acc = Inr acc"
| "alignment_loop tbl es ent (cur # more_ents) (ret, neighbour_count) =
     (if cur = ent then alignment_loop tbl es ent more_ents (ret, neighbour_count)
      else if PFM_Vec2_Len (PFM_Vec2_Sub (xz (es cur)) (xz (es ent))) < ALIGN_NEIGHBOUR_RADIUS then
        (case tbl cur of
           None \<Rightarrow> Inl AssertionFailed
         | Some ms \<Rightarrow>
            if PFM_Vec2_Len (velocity ms) < EPSILON
            then alignment_loop tbl es ent more_ents (ret, neighbour_count)
            else alignment_loop tbl es ent more_ents
                   (PFM_Vec2_Add ret (velocity ms), neighbour_count + 1))
      else alignment_loop tbl es ent more_ents (ret, neighbour_count))"

definition alignment_force :: "state_table \<Rightarrow> entity_store \<Rightarrow> nat \<Rightarrow> flock \<Rightarrow> int \<Rightarrow> error + vec2" where
  "alignment_force tbl es ent fl tick_res =
     (case alignment_loop tbl es ent (ents fl) ((0, 0), 0) of
        Inl e \<Rightarrow> Inl e
      | Inr (ret, neighbour_count) \<Rightarrow>
         if neighbour_count = 0 then Inr (0, 0)
         else (case tbl ent of
                 None \<Rightarrow> Inl AssertionFailed
               | Some ms \<Rightarrow>
                  vec2_truncate
                    (PFM_Vec2_Sub (PFM_Vec2_Scale ret (1 / real neighbour_count)) (velocity ms))
                    MAX_FORCE))"

fun cohesion_loop :: "entity_store \<Rightarrow> nat \<Rightarrow> nat list \<Rightarrow> vec2 \<times> nat \<Rightarrow> vec2 \<times> nat" where
  "cohesion_loop es ent [] acc = acc"
| "cohesion_loop es ent (cur # more_ents) (COM, neighbour_count) =
     (if cur = ent then cohesion_loop es ent more_ents (COM, neighbour_count)
      else if PFM_Vec2_Len (PFM_Vec2_Sub (xz (es cur)) (xz (es ent))) < COHESION_NEIGHBOUR_RADIUS
      then cohesion_loop es ent more_ents (PFM_Vec2_Add COM (xz (es cur)), neighbour_count + 1)
      else cohesion_loop es ent more_ents (COM, neighbour_count))"

definition cohesion_force :: "entity_store \<Rightarrow> nat \<Rightarrow> flock \<Rightarrow> int \<Rightarrow> error + vec2" where
  "cohesion_force es ent fl tick_res =
     (case cohesion_loop es ent (ents fl) ((0, 0), 0) of
        (COM, neighbour_count) \<Rightarrow>
          if neighbour_count = 0 then Inr (0, 0)
          else vec2_truncate
                 (PFM_Vec2_Sub (PFM_Vec2_Scale COM (1 / real neighbour_count)) (xz (es ent)))
                 MAX_FORCE)"

text \<open>
  In \<open>separation_force\<close> the division by \<open>NEIGHBOUR_RADIUS\<close> is reached only under
  \<open>PFM_Vec2_Len diff < NEIGHBOUR_RADIUS\<close>, hence with a positive divisor.
\<close>

fun separation_loop ::
  "entity_store \<Rightarrow> nat \<Rightarrow> real \<Rightarrow> nat list \<Rightarrow> vec2 \<times> nat \<Rightarrow> vec2 \<times> nat" where
  "separation_loop es ent NEIGHBOUR_RADIUS [] acc = acc"
| "separation_loop es ent NEIGHBOUR_RADIUS (cur # more_ents) (ret, neighbour_count) =
     (if cur = ent then separation_loop es ent NEIGHBOUR_RADIUS more_ents (ret, neighbour_count)
      else
        (let diff = PFM_Vec2_Sub (xz (es cur)) (xz (es ent))
         in if PFM_Vec2_Len diff < NEIGHBOUR_RADIUS then
              (let frac = 1 - PFM_Vec2_Len diff / NEIGHBOUR_RADIUS
               in separation_loop es ent NEIGHBOUR_RADIUS more_ents
                    (PFM_Vec2_Add ret (PFM_Vec2_Scale diff frac), neighbour_count + 1))
            else separation_loop es ent NEIGHBOUR_RADIUS more_ents (ret, neighbour_count)))"

definition separation_force :: "entity_store \<Rightarrow> nat \<Rightarrow> flock \<Rightarrow> int \<Rightarrow> real \<Rightarrow> error + vec2" where
  "separation_force es ent fl tick_res buffer_dist =
     (case separation_loop es ent (selection_radius (es ent) + buffer_dist) (ents fl) ((0, 0), 0) of
        (ret, neighbour_count) \<Rightarrow>
          if neighbour_count = 0 then Inr (0, 0)
          else vec2_truncate (PFM_Vec2_Scale ret (- 1 / real neighbour_count)) MAX_FORCE)"

text \<open>
  \<open>total_steering_force\<close> computes arrive, cohesion and alignment before it looks at the
  state, and uses arrive in the \<open>STATE_MOVING\<close> branch only. An undefined arrive force
  (the entity is on the target) therefore stops the model in that branch only, while a
  failed assertion of \<open>alignment_force\<close> stops it in every state.
\<close>

definition total_steering_force ::
  "state_table \<Rightarrow> entity_store \<Rightarrow> nat \<Rightarrow> flock \<Rightarrow> int \<Rightarrow> error + vec2" where
  "total_steering_force tbl es ent fl tick_res =
     (case tbl ent of
        None \<Rightarrow> Inl AssertionFailed
      | Some ms \<Rightarrow>
         (case cohesion_force es ent fl tick_res of
            Inl e \<Rightarrow> Inl e
          | Inr cohesion \<Rightarrow>
         (case alignment_force tbl es ent fl tick_res of
            Inl e \<Rightarrow> Inl e
          | Inr alignment \<Rightarrow>
             (case state ms of
                STATE_MOVING \<Rightarrow>
                  (case arrive_force tbl es ent fl tick_res of
                     Inl e \<Rightarrow> Inl e
                   | Inr arrive \<Rightarrow>
                  (case separation_force es ent fl tick_res MOVE_SEPARATION_BUFFER_DIST of
                     Inl e \<Rightarrow> Inl e
                   | Inr separation \<Rightarrow>
                      vec2_truncate
                        (PFM_Vec2_Add
                          (PFM_Vec2_Add
                            (PFM_Vec2_Add
                              (PFM_Vec2_Add (0, 0)
                                (PFM_Vec2_Scale separation MOVE_SEPARATION_FORCE_SCALE))
                              (PFM_Vec2_Scale arrive MOVE_ARRIVE_FORCE_SCALE))
                            (PFM_Vec2_Scale cohesion MOVE_COHESION_FORCE_SCALE))
                          (PFM_Vec2_Scale alignment MOVE_ALIGN_FORCE_SCALE))
                        MAX_FORCE))
              | STATE_SETTLING \<Rightarrow>
                  (case separation_force es ent fl tick_res SETTLE_SEPARATION_BUFFER_DIST of
                     Inl e \<Rightarrow> Inl e
                   | Inr separation \<Rightarrow>
                      vec2_truncate
                        (PFM_Vec2_Add (0, 0)
                          (PFM_Vec2_Scale separation SETTLE_SEPARATION_FORCE_SCALE))
                        MAX_FORCE)
              | STATE_ARRIVED \<Rightarrow> vec2_truncate (0, 0) MAX_FORCE))))"

subsection \<open>The flock registry and \<open>make_flock_from_selection\<close>\<close>

datatype event = EVENT_MOTION_START nat | EVENT_MOTION_END nat

text \<open>
  The static variables of movement.c, together with the entity store and the log of the
  notifications sent so far.
\<close>

record world =
  s_flocks :: "flock list"
  s_entity_state_table :: state_table
  entities :: entity_store
  notified :: "event list"

text \<open>
  Modelled from the spec: \<open>kv_del\<close> of kvec.h is not among the sources. The comment in
  \<open>make_flock_from_selection\<close> says that the last element of the vector takes the place
  of the deleted one.
\<close>

definition kv_del :: "'a list \<Rightarrow> nat \<Rightarrow> 'a list" where
  "kv_del v i = butlast (v[i := last v])"

definition eligible :: "entity \<Rightarrow> bool" where
  \<comment> \<open>the negation of \<open>flags & ENTITY_FLAG_STATIC || max_speed == 0.0f\<close>\<close>
  "eligible e \<longleftrightarrow> \<not> (static e \<or> max_speed e = 0)"

text \<open>
  The inner loop of the removal, \<open>for (j = kv_size(s_flocks)-1; j >= 0; j--)\<close>; the
  argument counts the indices still to visit, so \<open>Suc j\<close> visits index \<open>j\<close>. \<open>kh_del\<close>
  leaves the table without the key.
\<close>

fun remove_from_flocks :: "nat \<Rightarrow> nat \<Rightarrow> flock list \<Rightarrow> flock list" where
  "remove_from_flocks uid 0 fs = fs"
| "remove_from_flocks uid (Suc j) fs =
     (let curr_flock = (fs ! j)\<lparr>ents := removeAll uid (ents (fs ! j))\<rparr>;
          fs' = fs[j := curr_flock]
      in if length (ents curr_flock) = 0
         then remove_from_flocks uid j (kv_del fs' j)
         else remove_from_flocks uid j fs')"

fun remove_selection :: "entity_store \<Rightarrow> nat list \<Rightarrow> flock list \<Rightarrow> flock list" where
  "remove_selection es [] fs = fs"
| "remove_selection es (curr_ent # sel) fs =
     (if \<not> eligible (es curr_ent) then remove_selection es sel fs
      else remove_selection es sel (remove_from_flocks curr_ent (length fs) fs))"

text \<open>
  The second loop: every eligible entity is put into the new flock and gets or keeps a
  movement state. \<open>kh_put\<close> on a key that is already there trips the assertion.
\<close>

fun enrol ::
  "entity_store \<Rightarrow> nat list \<Rightarrow> nat list \<times> state_table \<times> event list
     \<Rightarrow> error + (nat list \<times> state_table \<times> event list)" where
  "enrol es [] acc = Inr acc"
| "enrol es (curr_ent # sel) (new_ents, tbl, evs) =
     (if \<not> eligible (es curr_ent) then enrol es sel (new_ents, tbl, evs)
      else if curr_ent \<in> set new_ents then Inl AssertionFailed
      else
        (case tbl curr_ent of
           None \<Rightarrow>
             enrol es sel
               (new_ents @ [curr_ent],
                tbl(curr_ent \<mapsto> \<lparr>velocity = (0, 0), state = STATE_MOVING\<rparr>),
                evs @ [EVENT_MOTION_START curr_ent])
         | Some ms \<Rightarrow>
             enrol es sel
               (new_ents @ [curr_ent],
                tbl(curr_ent \<mapsto> ms\<lparr>state := STATE_MOVING\<rparr>),
                if state ms = STATE_ARRIVED then evs @ [EVENT_MOTION_START curr_ent] else evs)))"

text \<open>
  \<open>kh_init_ok\<close> says whether \<open>kh_init\<close> returns a table; it is the only allocation whose
  failure the function reports.
\<close>

definition make_flock_from_selection ::
  "bool \<Rightarrow> nat list \<Rightarrow> vec2 \<Rightarrow> world \<Rightarrow> error + (bool \<times> world)" where
  "make_flock_from_selection kh_init_ok sel target w =
     (let w1 = w\<lparr>s_flocks := remove_selection (entities w) sel (s_flocks w)\<rparr>
      in if \<not> kh_init_ok then Inr (False, w1)
         else
           (case enrol (entities w1) sel ([], s_entity_state_table w1, notified w1) of
              Inl e \<Rightarrow> Inl e
            | Inr (new_ents, tbl, evs) \<Rightarrow>
                Inr (True,
                     w1\<lparr>s_flocks := s_flocks w1 @ [\<lparr>ents = new_ents, target_xz = target\<rparr>],
                        s_entity_state_table := tbl,
                        notified := evs\<rparr>)))"

subsection \<open>The tick\<close>

text \<open>
  The map is an external collaborator: of \<open>struct map\<close> the model keeps the two
  functions the tick calls on it.
\<close>

record map_t =
  M_ClampedMapCoordinate :: "vec2 \<Rightarrow> vec2"
  M_HeightAtPoint :: "vec2 \<Rightarrow> real"

definition TICK_RES :: int where "TICK_RES = 30"

definition adjacent_flock_members :: "entity_store \<Rightarrow> nat \<Rightarrow> flock \<Rightarrow> nat list" where
  "adjacent_flock_members es ent fl =
     filter (\<lambda>cur. cur \<noteq> ent \<and>
                PFM_Vec2_Len (PFM_Vec2_Sub (xz (es ent)) (xz (es cur)))
                  \<le> selection_radius (es ent) + selection_radius (es cur) + ADJACENCY_SEP_DIST)
            (ents fl)"

text \<open>The disband check: the loop leaves at the first member that has not arrived.\<close>

fun can_disband :: "state_table \<Rightarrow> nat list \<Rightarrow> error + bool" where
  "can_disband tbl [] = Inr True"
| "can_disband tbl (cur # more_ents) =
     (case tbl cur of
        None \<Rightarrow> Inl AssertionFailed
      | Some ms \<Rightarrow> if state ms \<noteq> STATE_ARRIVED then Inr False else can_disband tbl more_ents)"

text \<open>The loop over \<open>adjacent\<close> in the \<open>STATE_MOVING\<close> case.\<close>

fun adjacent_settled :: "state_table \<Rightarrow> nat list \<Rightarrow> error + bool" where
  "adjacent_settled tbl [] = Inr False"
| "adjacent_settled tbl (a # adjacent) =
     (case tbl a of
        None \<Rightarrow> Inl AssertionFailed
      | Some ms \<Rightarrow>
          if state ms = STATE_ARRIVED \<or> state ms = STATE_SETTLING then Inr True
          else adjacent_settled tbl adjacent)"

text \<open>The body of the loop over the members of a flock that is not disbanded.\<close>

definition update_entity :: "map_t \<Rightarrow> flock \<Rightarrow> nat \<Rightarrow> world \<Rightarrow> error + world" where
  "update_entity s_map fl cur w =
     (case total_steering_force (s_entity_state_table w) (entities w) cur fl TICK_RES of
        Inl e \<Rightarrow> Inl e
      | Inr steer_force \<Rightarrow>
     (case s_entity_state_table w cur of
        None \<Rightarrow> Inl AssertionFailed
      | Some ms \<Rightarrow>
     (case vec2_truncate
             (PFM_Vec2_Add (velocity ms) (PFM_Vec2_Scale steer_force (1 / ENTITY_MASS)))
             (max_speed (entities w cur) / real_of_int TICK_RES) of
        Inl e \<Rightarrow> Inl e
      | Inr new_velocity \<Rightarrow>
         (let new_xz_pos =
                M_ClampedMapCoordinate s_map (PFM_Vec2_Add (xz (entities w cur)) new_velocity);
              es = (entities w)
                     (cur := (entities w cur)
                        \<lparr>pos := (fst new_xz_pos, M_HeightAtPoint s_map new_xz_pos, snd new_xz_pos)\<rparr>);
              ms1 = ms\<lparr>velocity := new_velocity\<rparr>
          in case state ms1 of
               STATE_MOVING \<Rightarrow>
                 (let arrived =
                        (PFM_Vec2_Len (PFM_Vec2_Sub (target_xz fl) (xz (es cur)))
                           < ARRIVE_THRESHOLD_DIST);
                      ms2 = (if arrived then \<lparr>velocity = (0, 0), state = STATE_ARRIVED\<rparr> else ms1);
                      evs = (if arrived then notified w @ [EVENT_MOTION_END cur] else notified w);
                      tbl = (s_entity_state_table w)(cur \<mapsto> ms2)
                  in case adjacent_settled tbl (adjacent_flock_members es cur fl) of
                       Inl e \<Rightarrow> Inl e
                     | Inr settle \<Rightarrow>
                         Inr (w\<lparr>s_entity_state_table :=
                                  tbl(cur \<mapsto> (if settle then ms2\<lparr>state := STATE_SETTLING\<rparr> else ms2)),
                                entities := es,
                                notified := evs\<rparr>))
             | STATE_SETTLING \<Rightarrow>
                 (if PFM_Vec2_Len new_velocity < SETTLE_STOP_TOLERANCE * max_speed (es cur)
                  then Inr (w\<lparr>s_entity_state_table :=
                                 (s_entity_state_table w)
                                   (cur \<mapsto> \<lparr>velocity = (0, 0), state = STATE_ARRIVED\<rparr>),
                               entities := es,
                               notified := notified w @ [EVENT_MOTION_END cur]\<rparr>)
                  else Inr (w\<lparr>s_entity_state_table := (s_entity_state_table w)(cur \<mapsto> ms1),
                               entities := es\<rparr>))
             | STATE_ARRIVED \<Rightarrow>
                 Inr (w\<lparr>s_entity_state_table := (s_entity_state_table w)(cur \<mapsto> ms1),
                        entities := es\<rparr>)))))"

fun update_members :: "map_t \<Rightarrow> flock \<Rightarrow> nat list \<Rightarrow> world \<Rightarrow> error + world" where
  "update_members s_map fl [] w = Inr w"
| "update_members s_map fl (cur # more_ents) w =
     (case update_entity s_map fl cur w of
        Inl e \<Rightarrow> Inl e
      | Inr w' \<Rightarrow> update_members s_map fl more_ents w')"

text \<open>
  The loop over the flocks, \<open>for (i = kv_size(s_flocks)-1; i >= 0; i--)\<close>; again
  \<open>Suc i\<close> visits index \<open>i\<close>.
\<close>

fun tick_flocks :: "map_t \<Rightarrow> nat \<Rightarrow> world \<Rightarrow> error + world" where
  "tick_flocks s_map 0 w = Inr w"
| "tick_flocks s_map (Suc i) w =
     (let fl = s_flocks w ! i
      in case can_disband (s_entity_state_table w) (ents fl) of
           Inl e \<Rightarrow> Inl e
         | Inr disband \<Rightarrow>
             if disband then tick_flocks s_map i (w\<lparr>s_flocks := kv_del (s_flocks w) i\<rparr>)
             else (case update_members s_map fl (ents fl) w of
                     Inl e \<Rightarrow> Inl e
                   | Inr w' \<Rightarrow> tick_flocks s_map i w'))"

definition on_30hz_tick :: "map_t \<Rightarrow> world \<Rightarrow> error + world" where
  "on_30hz_tick s_map w = tick_flocks s_map (length (s_flocks w)) w"

text \<open>
  \<open>G_Move_Init\<close>, when \<open>kh_init\<close> succeeds, leaves an empty table of movement states
  and an empty vector of flocks.
\<close>

definition G_Move_Init :: "entity_store \<Rightarrow> world" where
  "G_Move_Init es =
     \<lparr>s_flocks = [], s_entity_state_table = Map.empty, entities = es, notified = []\<rparr>"

subsection \<open>The arrive force in the words of the specification\<close>

text \<open>
  The specification describes the arrive force as: desired velocity
  \<open>normalize(target - position) * (maxSpeed / tickRate)\<close>, scaled by
  \<open>distance / slowingRadius\<close> below the slowing radius of 10 units; the force is the
  desired velocity minus the current one, clamped in magnitude to 1.
\<close>

definition normalize_spec :: "vec2 \<Rightarrow> vec2" where
  "normalize_spec v = PFM_Vec2_Scale v (1 / PFM_Vec2_Len v)"

definition clamp_magnitude :: "vec2 \<Rightarrow> real \<Rightarrow> vec2" where
  "clamp_magnitude v m =
     (if PFM_Vec2_Len v \<le> m then v else PFM_Vec2_Scale (normalize_spec v) m)"


subsection \<open>Notions used to state the properties\<close>

text \<open>
  The order of the phases, runs of several ticks, and the properties of the registry and
  of the table that the theorems speak about.
\<close>

fun phase_rank :: "arrival_state \<Rightarrow> nat" where
  "phase_rank STATE_MOVING = 0"
| "phase_rank STATE_SETTLING = 1"
| "phase_rank STATE_ARRIVED = 2"

fun run_ticks :: "map_t \<Rightarrow> nat \<Rightarrow> world \<Rightarrow> error + world" where
  "run_ticks s_map 0 w = Inr w"
| "run_ticks s_map (Suc n) w =
     (case on_30hz_tick s_map w of Inl e \<Rightarrow> Inl e | Inr w' \<Rightarrow> run_ticks s_map n w')"

text \<open>Every entity is listed at most once, over all flocks of the registry.\<close>

definition one_flock_each :: "flock list \<Rightarrow> bool" where
  "one_flock_each fs \<longleftrightarrow> distinct (concat (map ents fs))"

text \<open>
  The eligible entities of a selection, a flock without the members in \<open>S\<close>, and the
  members of a multiset of flocks.
\<close>

definition eligible_in :: "entity_store \<Rightarrow> nat list \<Rightarrow> nat list" where
  "eligible_in es sel = filter (\<lambda>u. eligible (es u)) sel"

definition strip_flock :: "nat set \<Rightarrow> flock \<Rightarrow> flock" where
  "strip_flock S f = f\<lparr>ents := filter (\<lambda>u. u \<notin> S) (ents f)\<rparr>"

definition del_member :: "nat \<Rightarrow> flock \<Rightarrow> flock" where
  "del_member uid f = f\<lparr>ents := removeAll uid (ents f)\<rparr>"

definition has_members :: "flock \<Rightarrow> bool" where
  "has_members f \<longleftrightarrow> ents f \<noteq> []"

definition flock_members :: "flock multiset \<Rightarrow> nat multiset" where
  "flock_members M = sum_mset (image_mset (\<lambda>f. mset (ents f)) M)"

text \<open>
  What \<open>make_flock_from_selection\<close> does to one table entry: whether it notifies the
  start of a motion, and the entry it leaves.
\<close>

definition starts_motion :: "state_table \<Rightarrow> nat \<Rightarrow> bool" where
  "starts_motion tbl u \<longleftrightarrow> (case tbl u of None \<Rightarrow> True | Some ms \<Rightarrow> state ms = STATE_ARRIVED)"

definition enrolled :: "state_table \<Rightarrow> nat \<Rightarrow> movestate" where
  "enrolled tbl u =
     (case tbl u of None \<Rightarrow> \<lparr>velocity = (0, 0), state = STATE_MOVING\<rparr>
                  | Some ms \<Rightarrow> ms\<lparr>state := STATE_MOVING\<rparr>)"

text \<open>The entity after the tick has moved it by the velocity \<open>v\<close>.\<close>

definition moved_to :: "map_t \<Rightarrow> entity \<Rightarrow> vec2 \<Rightarrow> entity" where
  "moved_to s_map e v =
     (let p = M_ClampedMapCoordinate s_map (PFM_Vec2_Add (xz e) v)
      in e\<lparr>pos := (fst p, M_HeightAtPoint s_map p, snd p)\<rparr>)"

definition arrived :: "state_table \<Rightarrow> nat \<Rightarrow> bool" where
  "arrived tbl u \<longleftrightarrow> (case tbl u of None \<Rightarrow> False | Some ms \<Rightarrow> state ms = STATE_ARRIVED)"

definition all_arrived :: "state_table \<Rightarrow> flock \<Rightarrow> bool" where
  "all_arrived tbl fl \<longleftrightarrow> (\<forall>u\<in>set (ents fl). arrived tbl u)"

definition arrived_at_rest :: "state_table \<Rightarrow> bool" where
  "arrived_at_rest tbl \<longleftrightarrow>
     (\<forall>u ms. tbl u = Some ms \<longrightarrow> state ms = STATE_ARRIVED \<longrightarrow> velocity ms = (0, 0))"

text \<open>Relations between the world before and after a part of the tick.\<close>

definition phase_advances :: "world \<Rightarrow> world \<Rightarrow> bool" where
  "phase_advances w w' \<longleftrightarrow>
     (\<forall>u ms. s_entity_state_table w u = Some ms \<longrightarrow>
        (\<exists>ms'. s_entity_state_table w' u = Some ms'
              \<and> phase_rank (state ms) \<le> phase_rank (state ms')))"

definition speed_clamped :: "world \<Rightarrow> nat \<Rightarrow> bool" where
  "speed_clamped w u \<longleftrightarrow>
     (\<exists>ms. s_entity_state_table w u = Some ms
          \<and> PFM_Vec2_Len (velocity ms) \<le> max_speed (entities w u) / real_of_int TICK_RES)"

definition speeds_kept :: "world \<Rightarrow> world \<Rightarrow> bool" where
  "speeds_kept w w' \<longleftrightarrow>
     (\<forall>u. max_speed (entities w' u) = max_speed (entities w u))
   \<and> ((\<forall>u. 0 \<le> max_speed (entities w u)) \<longrightarrow>
        (\<forall>u. speed_clamped w u \<longrightarrow> speed_clamped w' u)
      \<and> (\<forall>u. s_entity_state_table w u = None \<longrightarrow> s_entity_state_table w' u = None))"

definition arrivals_kept :: "world \<Rightarrow> world \<Rightarrow> bool" where
  "arrivals_kept w w' \<longleftrightarrow>
     (\<forall>u. arrived (s_entity_state_table w) u \<longrightarrow> arrived (s_entity_state_table w') u)"

definition untouched :: "nat \<Rightarrow> world \<Rightarrow> world \<Rightarrow> bool" where
  "untouched u w w' \<longleftrightarrow>
     s_entity_state_table w' u = s_entity_state_table w u
   \<and> entities w' u = entities w u
   \<and> (\<exists>evs. notified w' = notified w @ evs \<and> EVENT_MOTION_END u \<notin> set evs
            \<and> EVENT_MOTION_START u \<notin> set evs)"

text \<open>
  What the tick needs of a member of a flock in order to run without error: a movement
  state, a position off the target while it is moving (the arrive force normalises the
  offset to the target), and a maximum speed that is not negative (the velocity is
  truncated to it). A world is ready for a tick when no entity is listed twice and every
  member of every flock is ready.
\<close>

definition ready :: "world \<Rightarrow> flock \<Rightarrow> nat \<Rightarrow> bool" where
  "ready w fl u \<longleftrightarrow>
     (\<exists>ms. s_entity_state_table w u = Some ms
          \<and> (state ms = STATE_MOVING \<longrightarrow> xz (entities w u) \<noteq> target_xz fl))
   \<and> 0 \<le> max_speed (entities w u)"

definition tick_ready :: "world \<Rightarrow> bool" where
  "tick_ready w \<longleftrightarrow>
     one_flock_each (s_flocks w)
   \<and> (\<forall>fl\<in>set (s_flocks w). \<forall>u\<in>set (ents fl). ready w fl u)"

subsection \<open>Example worlds\<close>

definition unit_at :: "vec2 \<Rightarrow> entity" where
  "unit_at p = \<lparr>pos = (fst p, 0, snd p), max_speed = 30, selection_radius = 1, static = False\<rparr>"

definition lone_store :: entity_store where
  "lone_store = (\<lambda>uid. unit_at (0, 0))"

definition lone_table :: state_table where
  "lone_table = [0 \<mapsto> \<lparr>velocity = (0, 0), state = STATE_MOVING\<rparr>]"

definition lone_flock :: flock where
  "lone_flock = \<lparr>ents = [0], target_xz = (3, 0)\<rparr>"

definition flat_map :: map_t where
  "flat_map = \<lparr>M_ClampedMapCoordinate = (\<lambda>p. p), M_HeightAtPoint = (\<lambda>p. 0)\<rparr>"

definition lone_world :: world where
  "lone_world = \<lparr>s_flocks = [lone_flock], s_entity_state_table = lone_table,
                  entities = lone_store, notified = []\<rparr>"

definition lone_after :: world where
  "lone_after =
     \<lparr>s_flocks = [lone_flock],
      s_entity_state_table = lone_table(0 \<mapsto> \<lparr>velocity = (0, 0), state = STATE_ARRIVED\<rparr>),
      entities = lone_store(0 := unit_at (21 / 100, 0)),
      notified = [EVENT_MOTION_END 0]\<rparr>"

definition static_unit :: entity where
  "static_unit = \<lparr>pos = (0, 0, 0), max_speed = 30, selection_radius = 1, static = True\<rparr>"

definition static_world :: world where
  "static_world = \<lparr>s_flocks = [], s_entity_state_table = Map.empty,
                    entities = (\<lambda>uid. static_unit), notified = []\<rparr>"

definition paired_world :: world where
  "paired_world =
     \<lparr>s_flocks = [\<lparr>ents = [0, 1], target_xz = (3, 0)\<rparr>],
      s_entity_state_table =
        [0 \<mapsto> \<lparr>velocity = (0, 0), state = STATE_MOVING\<rparr>,
         1 \<mapsto> \<lparr>velocity = (0, 0), state = STATE_ARRIVED\<rparr>],
      entities = lone_store, notified = []\<rparr>"

definition mixed_world :: world where
  "mixed_world =
     \<lparr>s_flocks = [\<lparr>ents = [1, 2], target_xz = (3, 0)\<rparr>],
      s_entity_state_table =
        [1 \<mapsto> \<lparr>velocity = (0, 0), state = STATE_ARRIVED\<rparr>,
         2 \<mapsto> \<lparr>velocity = (1, 0), state = STATE_MOVING\<rparr>],
      entities = (\<lambda>uid. if uid = 0 then static_unit else unit_at (0, 0)),
      notified = []\<rparr>"

definition mixed_after :: world where
  "mixed_after =
     mixed_world
       \<lparr>s_flocks := [\<lparr>ents = [2], target_xz = (3, 0)\<rparr>, \<lparr>ents = [1, 3], target_xz = (9, 9)\<rparr>],
        s_entity_state_table :=
          (s_entity_state_table mixed_world)
            (1 \<mapsto> \<lparr>velocity = (0, 0), state = STATE_MOVING\<rparr>,
             3 \<mapsto> \<lparr>velocity = (0, 0), state = STATE_MOVING\<rparr>),
        notified := [EVENT_MOTION_START 1, EVENT_MOTION_START 3]\<rparr>"

definition mixed_ticked :: world where
  "mixed_ticked =
     mixed_world
       \<lparr>s_entity_state_table :=
          (s_entity_state_table mixed_world)
            (2 \<mapsto> \<lparr>velocity = (0, 0), state = STATE_SETTLING\<rparr>),
        entities := (entities mixed_world)(1 := unit_at (0, 0), 2 := unit_at (51 / 100, 0)),
        notified := [EVENT_MOTION_END 2]\<rparr>"

definition arrived_world :: world where
  "arrived_world =
     \<lparr>s_flocks = [\<lparr>ents = [0, 1], target_xz = (3, 0)\<rparr>],
      s_entity_state_table =
        [0 \<mapsto> \<lparr>velocity = (0, 0), state = STATE_ARRIVED\<rparr>,
         1 \<mapsto> \<lparr>velocity = (0, 0), state = STATE_ARRIVED\<rparr>],
      entities = lone_store, notified = []\<rparr>"

text \<open>
  The world that \<open>make_flock_from_selection\<close> leaves after \<open>G_Move_Init\<close> when entity 0
  is sent to the point where it stands, and a world with an entity of negative maximum
  speed before and after a tick.
\<close>

definition on_target_world :: world where
  "on_target_world =
     \<lparr>s_flocks = [\<lparr>ents = [0], target_xz = (0, 0)\<rparr>],
      s_entity_state_table = [0 \<mapsto> \<lparr>velocity = (0, 0), state = STATE_MOVING\<rparr>],
      entities = lone_store,
      notified = [EVENT_MOTION_START 0]\<rparr>"

definition reverse_unit :: entity where
  "reverse_unit = \<lparr>pos = (0, 0, 0), max_speed = - 30, selection_radius = 1, static = False\<rparr>"

definition reverse_world :: world where
  "reverse_world =
     \<lparr>s_flocks = [\<lparr>ents = [0], target_xz = (100, 0)\<rparr>],
      s_entity_state_table = [0 \<mapsto> \<lparr>velocity = (0, 0), state = STATE_MOVING\<rparr>],
      entities = (\<lambda>uid. reverse_unit),
      notified = [EVENT_MOTION_START 0]\<rparr>"

definition reverse_after :: world where
  "reverse_after =
     reverse_world
       \<lparr>s_entity_state_table := [0 \<mapsto> \<lparr>velocity = (1, 0), state = STATE_MOVING\<rparr>],
        entities := (\<lambda>uid. reverse_unit)(0 := reverse_unit\<lparr>pos := (1, 0, 0)\<rparr>)\<rparr>"

section \<open>Verification\<close>

subsection \<open>Vectors\<close>

lemmas movement_constants =
  MAX_FORCE_def EPSILON_def ENTITY_MASS_def MOVE_SEPARATION_FORCE_SCALE_def
  MOVE_ARRIVE_FORCE_SCALE_def MOVE_COHESION_FORCE_SCALE_def MOVE_ALIGN_FORCE_SCALE_def
  SETTLE_SEPARATION_FORCE_SCALE_def ARRIVE_THRESHOLD_DIST_def MOVE_SEPARATION_BUFFER_DIST_def
  SETTLE_SEPARATION_BUFFER_DIST_def COHESION_NEIGHBOUR_RADIUS_def ALIGN_NEIGHBOUR_RADIUS_def
  ARRIVE_SLOWING_RADIUS_def ADJACENCY_SEP_DIST_def SETTLE_STOP_TOLERANCE_def TICK_RES_def

lemma Len_nonneg: "0 \<le> PFM_Vec2_Len v"
  by (cases v) simp

lemma Len_Scale: "PFM_Vec2_Len (PFM_Vec2_Scale v s) = \<bar>s\<bar> * PFM_Vec2_Len v"
proof (cases v)
  case (Pair x y)
  have "x * s * (x * s) + y * s * (y * s) = s\<^sup>2 * (x * x + y * y)"
    by (simp add: power2_eq_square algebra_simps)
  then show ?thesis using Pair
    by (simp add: real_sqrt_mult)
qed

lemma Len_eq_0_iff: "PFM_Vec2_Len v = 0 \<longleftrightarrow> v = (0, 0)"
  by (cases v) simp

lemma Sub_eq_0_iff: "PFM_Vec2_Sub a b = (0, 0) \<longleftrightarrow> a = b"
  by (cases a; cases b) auto

lemma Normal_Inr:
  assumes "PFM_Vec2_Normal v = Inr n"
  shows "PFM_Vec2_Len v \<noteq> 0" and "n = PFM_Vec2_Scale v (1 / PFM_Vec2_Len v)"
  using assms by (cases v; simp add: PFM_Vec2_Normal_def split: if_splits)+

lemma Normal_defined:
  "PFM_Vec2_Len v \<noteq> 0 \<Longrightarrow> PFM_Vec2_Normal v = Inr (normalize_spec v)"
  by (cases v) (simp add: PFM_Vec2_Normal_def normalize_spec_def)

lemma Len_Normal:
  assumes "PFM_Vec2_Normal v = Inr n"
  shows "PFM_Vec2_Len n = 1"
proof -
  have "0 < PFM_Vec2_Len v"
    using Normal_Inr(1) [OF assms] Len_nonneg [of v] by linarith
  then show ?thesis
    by (simp add: Normal_Inr(2) [OF assms] Len_Scale del: PFM_Vec2_Scale.simps)
qed

lemma vec2_truncate_bound:
  assumes "vec2_truncate v m = Inr r" and "0 \<le> m"
  shows "PFM_Vec2_Len r \<le> m"
proof (cases "PFM_Vec2_Len v > m")
  case True
  with assms(1) obtain n where n: "PFM_Vec2_Normal v = Inr n" and r: "r = PFM_Vec2_Scale n m"
    by (auto simp: vec2_truncate_def split: sum.splits)
  show ?thesis using assms(2) by (simp add: r Len_Scale Len_Normal [OF n])
next
  case False
  with assms(1) show ?thesis by (simp add: vec2_truncate_def)
qed

lemma vec2_truncate_clamp:
  assumes "0 \<le> m"
  shows "vec2_truncate v m = Inr (clamp_magnitude v m)"
proof (cases "PFM_Vec2_Len v > m")
  case True
  then have "PFM_Vec2_Len v \<noteq> 0" using assms by linarith
  then show ?thesis using True
    by (simp add: vec2_truncate_def clamp_magnitude_def Normal_defined)
next
  case False
  then show ?thesis by (simp add: vec2_truncate_def clamp_magnitude_def)
qed

lemma truncate_MAX_FORCE_bound:
  "vec2_truncate v MAX_FORCE = Inr r \<Longrightarrow> PFM_Vec2_Len r \<le> MAX_FORCE"
  by (rule vec2_truncate_bound) (simp_all add: MAX_FORCE_def)


lemma Len_x_axis: "PFM_Vec2_Len (x, 0) = \<bar>x\<bar>"
  by simp

subsection \<open>The example worlds, evaluated\<close>

lemmas eval_defs = total_steering_force_def xz_def cohesion_force_def alignment_force_def
      arrive_force_def separation_force_def vec2_truncate_def PFM_Vec2_Normal_def
      speed_per_tick_def update_entity_def adjacent_flock_members_def on_30hz_tick_def
      movement_constants Let_def

lemma lone_tick: "on_30hz_tick flat_map lone_world = Inr lone_after"
  by (simp add: eval_defs lone_world_def lone_after_def lone_table_def lone_store_def
      lone_flock_def unit_at_def flat_map_def Len_x_axis del: PFM_Vec2_Len.simps)


lemma mixed_make_flock:
  "make_flock_from_selection True [0, 1, 3] (9, 9) mixed_world = Inr (True, mixed_after)"
  by (simp add: make_flock_from_selection_def mixed_world_def mixed_after_def static_unit_def
      unit_at_def eligible_def kv_del_def)

lemma arrived_tick:
  "on_30hz_tick flat_map arrived_world = Inr (arrived_world\<lparr>s_flocks := []\<rparr>)"
  by (simp add: on_30hz_tick_def arrived_world_def kv_del_def)

lemma paired_failure:
  "make_flock_from_selection False [0] (9, 9) paired_world =
     Inr (False, paired_world\<lparr>s_flocks := [\<lparr>ents = [1], target_xz = (3, 0)\<rparr>]\<rparr>)"
  by (simp add: make_flock_from_selection_def paired_world_def lone_store_def unit_at_def
      eligible_def kv_del_def)

lemma on_target_reached:
  "make_flock_from_selection True [0] (0, 0) (G_Move_Init lone_store) = Inr (True, on_target_world)"
  by (simp add: make_flock_from_selection_def G_Move_Init_def on_target_world_def lone_store_def
      unit_at_def eligible_def)

lemma reverse_reached:
  "make_flock_from_selection True [0] (100, 0) (G_Move_Init (\<lambda>uid. reverse_unit)) =
     Inr (True, reverse_world)"
  by (simp add: make_flock_from_selection_def G_Move_Init_def reverse_world_def reverse_unit_def
      eligible_def)

subsection \<open>Steering forces\<close>

text \<open>
  In exact arithmetic every force that \<open>total_steering_force\<close> returns has a length of
  at most \<open>MAX_FORCE\<close>: every branch ends in \<open>vec2_truncate\<close>. The program computes in
  \<open>float\<close>, where normalising and scaling round; the truncated force can then be longer
  than \<open>MAX_FORCE\<close> by the rounding error, which a model over the reals does not show.
\<close>

lemma total_steering_force_bounded:
  "total_steering_force tbl es ent fl tick_res = Inr f \<Longrightarrow> PFM_Vec2_Len f \<le> MAX_FORCE"
  unfolding total_steering_force_def
  by (auto split: option.splits sum.splits arrival_state.splits
           dest: truncate_MAX_FORCE_bound
           simp del: PFM_Vec2_Len.simps PFM_Vec2_Add.simps PFM_Vec2_Scale.simps)

text \<open>
  Claim C3 says that the steering force of every entity with a movement state has a
  length of at most \<open>MAX_FORCE\<close>, and the program, which ends \<open>total_steering_force\<close> in
  \<open>vec2_truncate\<close> to that end, misses it: send an entity to the point where it stands
  (\<open>make_flock_from_selection\<close> after \<open>G_Move_Init\<close>, entity 0 at the target). The entity
  is moving, \<open>arrive_force\<close> normalises the offset to the target, which is the zero vector,
  and nothing tests for a distance of zero. The division by zero makes the force NaN, and
  \<open>vec2_truncate\<close> leaves a NaN as it is, since its comparison is false. The model stops
  at the division with \<open>DivisionByZero\<close>: no force of length at most \<open>MAX_FORCE\<close> comes
  back.
\<close>

theorem steering_force_on_target:
  "make_flock_from_selection True [0] (0, 0) (G_Move_Init lone_store) = Inr (True, on_target_world)
   \<and> total_steering_force (s_entity_state_table on_target_world) (entities on_target_world) 0
         \<lparr>ents = [0], target_xz = (0, 0)\<rparr> TICK_RES = Inl DivisionByZero"
  by (simp add: on_target_reached)
     (simp add: eval_defs on_target_world_def lone_store_def unit_at_def)





subsection \<open>The registry: removal from the flocks\<close>

text \<open>
  \<open>kv_del\<close> keeps the elements before the index and removes exactly the element at the
  index, up to the order of the elements behind it.
\<close>

lemma kv_del_conv:
  assumes "j < length v"
  shows "kv_del v j = take j v @ butlast (last v # drop (Suc j) v)"
proof -
  have "v[j := last v] = take j v @ last v # drop (Suc j) v"
    using assms by (rule upd_conv_take_nth_drop)
  then show ?thesis by (simp add: kv_del_def butlast_append)
qed

lemma take_kv_del: "j < length v \<Longrightarrow> take j (kv_del v j) = take j v"
  by (simp add: kv_del_conv)

lemma length_kv_del: "j < length v \<Longrightarrow> length (kv_del v j) = length v - 1"
  by (simp add: kv_del_def)

lemma mset_butlast_last_Cons:
  assumes "D \<noteq> []"
  shows "mset (butlast (last D # D)) = mset D"
proof -
  have "add_mset (last D) (mset (butlast D)) = mset (butlast D @ [last D])"
    by simp
  also have "butlast D @ [last D] = D"
    using assms by (rule append_butlast_last_id)
  finally show ?thesis using assms by simp
qed

lemma mset_drop_kv_del:
  assumes "j < length v"
  shows "mset (drop j (kv_del v j)) = mset (drop (Suc j) v)"
proof (cases "drop (Suc j) v = []")
  case True
  then show ?thesis using assms by (simp add: kv_del_conv)
next
  case False
  then have "last (drop (Suc j) v) = last v" by simp
  then show ?thesis
    using assms False mset_butlast_last_Cons [of "drop (Suc j) v"]
    by (simp add: kv_del_conv)
qed

lemma set_drop_kv_del:
  "i < length v \<Longrightarrow> set (drop i (kv_del v i)) = set (drop (Suc i) v)"
  using mset_drop_kv_del [of i v] by (metis set_mset_mset)

lemma mset_kv_del:
  assumes "j < length v"
  shows "add_mset (v ! j) (mset (kv_del v j)) = mset v"
proof -
  have "mset (kv_del v j) = mset (take j (kv_del v j)) + mset (drop j (kv_del v j))"
    by (metis append_take_drop_id mset_append)
  also have "\<dots> = mset (take j v) + mset (drop (Suc j) v)"
    using assms by (simp add: take_kv_del mset_drop_kv_del)
  finally have "add_mset (v ! j) (mset (kv_del v j)) = mset (take j v @ v ! j # drop (Suc j) v)"
    by simp
  then show ?thesis using assms by (simp add: id_take_nth_drop [symmetric])
qed

text \<open>
  One pass of the inner loop removes the entity from every flock and drops the flocks
  that are empty afterwards; the whole removal does so for every eligible entity of the
  selection.
\<close>

lemma remove_from_flocks_mset:
  "n \<le> length fs \<Longrightarrow>
   mset (remove_from_flocks uid n fs) =
     filter_mset has_members (image_mset (del_member uid) (mset (take n fs))) + mset (drop n fs)"
proof (induction n arbitrary: fs)
  case 0
  then show ?case by simp
next
  case (Suc j)
  then have j: "j < length fs" by simp
  let ?cf = "del_member uid (fs ! j)"
  let ?fs' = "fs[j := ?cf]"
  have tk: "mset (take (Suc j) fs) = add_mset (fs ! j) (mset (take j fs))"
    using j by (simp add: take_Suc_conv_app_nth)
  show ?case
  proof (cases "ents ?cf = []")
    case True
    have len: "j \<le> length (kv_del ?fs' j)" using j by (simp add: length_kv_del)
    have "remove_from_flocks uid (Suc j) fs = remove_from_flocks uid j (kv_del ?fs' j)"
      using True by (simp add: del_member_def Let_def)
    also have "mset \<dots> = filter_mset has_members (image_mset (del_member uid) (mset (take j fs)))
         + mset (drop (Suc j) fs)"
      using j by (simp add: Suc.IH [OF len] take_kv_del mset_drop_kv_del)
    finally show ?thesis using True by (simp add: tk has_members_def)
  next
    case False
    have len: "j \<le> length ?fs'" using j by simp
    have "remove_from_flocks uid (Suc j) fs = remove_from_flocks uid j ?fs'"
      using False by (simp add: del_member_def Let_def)
    also have "mset \<dots> = filter_mset has_members (image_mset (del_member uid) (mset (take j fs)))
         + add_mset ?cf (mset (drop (Suc j) fs))"
      using j by (simp add: Suc.IH [OF len] Cons_nth_drop_Suc [symmetric])
    finally show ?thesis using False by (simp add: tk has_members_def)
  qed
qed

lemma remove_from_flocks_all:
  "mset (remove_from_flocks uid (length fs) fs) =
     filter_mset has_members (image_mset (del_member uid) (mset fs))"
  by (simp add: remove_from_flocks_mset)

lemma removeAll_as_filter: "removeAll uid xs = filter (\<lambda>u. u \<notin> {uid}) xs"
  by (induction xs) auto

lemma del_member_strip: "del_member uid = strip_flock {uid}"
  by (rule ext) (simp only: del_member_def strip_flock_def removeAll_as_filter)

lemma strip_strip: "strip_flock T (strip_flock S f) = strip_flock (S \<union> T) f"
  by (simp add: strip_flock_def conj_commute)

lemma strip_keeps_empty: "\<not> has_members f \<Longrightarrow> \<not> has_members (strip_flock S f)"
  by (simp add: has_members_def strip_flock_def)

lemma filter_strip_twice:
  "filter_mset has_members (image_mset (strip_flock T)
      (filter_mset has_members (image_mset (strip_flock S) M))) =
   filter_mset has_members (image_mset (strip_flock (S \<union> T)) M)"
proof (induction M)
  case empty
  then show ?case by simp
next
  case (add f M)
  then show ?case
    using strip_keeps_empty [of "strip_flock S f" T]
    by (simp add: strip_strip)
qed

lemma eligible_in_Cons:
  "eligible_in es (u # sel) = (if eligible (es u) then u # eligible_in es sel else eligible_in es sel)"
  by (simp add: eligible_in_def)

lemma remove_selection_mset:
  "mset (remove_selection es sel fs) =
     (if eligible_in es sel = [] then mset fs
      else filter_mset has_members
             (image_mset (strip_flock (set (eligible_in es sel))) (mset fs)))"
proof (induction sel arbitrary: fs)
  case Nil
  then show ?case by (simp add: eligible_in_def)
next
  case (Cons u sel)
  show ?case
  proof (cases "eligible (es u)")
    case False
    then show ?thesis by (simp add: Cons.IH eligible_in_Cons)
  next
    case True
    let ?fs1 = "remove_from_flocks u (length fs) fs"
    have fs1: "mset ?fs1 = filter_mset has_members (image_mset (strip_flock {u}) (mset fs))"
      by (simp add: remove_from_flocks_all del_member_strip)
    have "mset (remove_selection es (u # sel) fs) = mset (remove_selection es sel ?fs1)"
      using True by simp
    also have "\<dots> = filter_mset has_members
             (image_mset (strip_flock (set (eligible_in es (u # sel)))) (mset fs))"
    proof (cases "eligible_in es sel = []")
      case True
      then show ?thesis using \<open>eligible (es u)\<close> by (simp add: Cons.IH fs1 eligible_in_Cons)
    next
      case False
      then show ?thesis using \<open>eligible (es u)\<close>
        by (simp add: Cons.IH fs1 eligible_in_Cons filter_strip_twice)
    qed
    finally show ?thesis using True by (simp add: eligible_in_Cons)
  qed
qed

lemma no_eligible: "(\<forall>u\<in>set sel. \<not> eligible (es u)) \<longleftrightarrow> eligible_in es sel = []"
  by (auto simp: eligible_in_def filter_empty_conv)

lemma remove_selection_none:
  "eligible_in es sel = [] \<Longrightarrow> remove_selection es sel fs = fs"
  by (induction sel arbitrary: fs) (auto simp: eligible_in_Cons split: if_splits)

subsection \<open>The registry: enrolment\<close>

lemma enrol_result:
  assumes "enrol es sel (new_ents, tbl, evs) = Inr (new_ents', tbl', evs')"
  shows "new_ents' = new_ents @ eligible_in es sel
       \<and> distinct (eligible_in es sel)
       \<and> set (eligible_in es sel) \<inter> set new_ents = {}
       \<and> evs' = evs @ map EVENT_MOTION_START (filter (starts_motion tbl) (eligible_in es sel))
       \<and> (\<forall>u. tbl' u = (if u \<in> set (eligible_in es sel) then Some (enrolled tbl u) else tbl u))"
  using assms
proof (induction sel arbitrary: new_ents tbl evs)
  case Nil
  then show ?case by (simp add: eligible_in_def)
next
  case (Cons c sel)
  show ?case
  proof (cases "eligible (es c)")
    case False
    with Cons.prems have "enrol es sel (new_ents, tbl, evs) = Inr (new_ents', tbl', evs')"
      by simp
    from Cons.IH [OF this] show ?thesis using False by (simp add: eligible_in_Cons)
  next
    case True
    with Cons.prems have c: "c \<notin> set new_ents" by (auto split: if_splits)
    let ?tbl1 = "tbl(c \<mapsto> enrolled tbl c)"
    let ?evs1 = "if starts_motion tbl c then evs @ [EVENT_MOTION_START c] else evs"
    have "enrol es sel (new_ents @ [c], ?tbl1, ?evs1) = Inr (new_ents', tbl', evs')"
      using Cons.prems True c
      by (auto simp: enrolled_def starts_motion_def split: option.splits if_splits)
    from Cons.IH [OF this]
    have n: "new_ents' = (new_ents @ [c]) @ eligible_in es sel"
      and d: "distinct (eligible_in es sel)"
      and i: "set (eligible_in es sel) \<inter> set (new_ents @ [c]) = {}"
      and e: "evs' = ?evs1 @ map EVENT_MOTION_START (filter (starts_motion ?tbl1) (eligible_in es sel))"
      and t: "\<forall>u. tbl' u = (if u \<in> set (eligible_in es sel) then Some (enrolled ?tbl1 u) else ?tbl1 u)"
      by blast+
    from i have cn: "c \<notin> set (eligible_in es sel)" by auto
    have same: "filter (starts_motion ?tbl1) (eligible_in es sel) = filter (starts_motion tbl) (eligible_in es sel)"
      using cn by (intro filter_cong) (auto simp: starts_motion_def)
    have t': "\<forall>u. tbl' u = (if u \<in> set (eligible_in es (c # sel)) then Some (enrolled tbl u) else tbl u)"
      using t cn True by (auto simp: eligible_in_Cons enrolled_def)
    show ?thesis
      using n d i e t' cn True c by (auto simp: eligible_in_Cons same)
  qed
qed

lemma enrol_none:
  "eligible_in es sel = [] \<Longrightarrow> enrol es sel (new_ents, tbl, evs) = Inr (new_ents, tbl, evs)"
  by (induction sel) (auto simp: eligible_in_Cons split: if_splits)

lemma make_flock_success:
  assumes "make_flock_from_selection kh_init_ok sel target w = Inr (True, w')"
  shows "kh_init_ok"
    and "s_flocks w' = remove_selection (entities w) sel (s_flocks w)
           @ [\<lparr>ents = eligible_in (entities w) sel, target_xz = target\<rparr>]"
    and "distinct (eligible_in (entities w) sel)"
    and "s_entity_state_table w' =
           (\<lambda>u. if u \<in> set (eligible_in (entities w) sel)
                then Some (enrolled (s_entity_state_table w) u) else s_entity_state_table w u)"
    and "notified w' = notified w @ map EVENT_MOTION_START
           (filter (starts_motion (s_entity_state_table w)) (eligible_in (entities w) sel))"
    and "entities w' = entities w"
proof -
  from assms show ok: "kh_init_ok"
    by (auto simp: make_flock_from_selection_def Let_def split: if_splits)
  from assms ok obtain new_ents tbl evs where
    en: "enrol (entities w) sel ([], s_entity_state_table w, notified w) = Inr (new_ents, tbl, evs)"
    and w': "w' = w\<lparr>s_flocks := remove_selection (entities w) sel (s_flocks w)
                       @ [\<lparr>ents = new_ents, target_xz = target\<rparr>],
                    s_entity_state_table := tbl, notified := evs\<rparr>"
    by (auto simp: make_flock_from_selection_def Let_def split: sum.splits)
  note r = enrol_result [OF en]
  from r w' show "s_flocks w' = remove_selection (entities w) sel (s_flocks w)
           @ [\<lparr>ents = eligible_in (entities w) sel, target_xz = target\<rparr>]" by simp
  from r show "distinct (eligible_in (entities w) sel)" by simp
  from r w' show "s_entity_state_table w' =
           (\<lambda>u. if u \<in> set (eligible_in (entities w) sel)
                then Some (enrolled (s_entity_state_table w) u) else s_entity_state_table w u)"
    by auto
  from r w' show "notified w' = notified w @ map EVENT_MOTION_START
           (filter (starts_motion (s_entity_state_table w)) (eligible_in (entities w) sel))"
    by simp
  from w' show "entities w' = entities w" by simp
qed

lemma make_flock_failure:
  assumes "make_flock_from_selection kh_init_ok sel target w = Inr (False, w')"
  shows "\<not> kh_init_ok"
    and "w' = w\<lparr>s_flocks := remove_selection (entities w) sel (s_flocks w)\<rparr>"
  using assms
  by (auto simp: make_flock_from_selection_def Let_def split: if_splits sum.splits)

lemma count_list_map_filter:
  assumes "distinct xs" and "u \<in> set xs"
  shows "count_list (map EVENT_MOTION_START (filter P xs)) (EVENT_MOTION_START u) = (if P u then 1 else 0)"
  using assms by (induction xs) (auto simp: count_list_0_iff)

text \<open>
  Claim C8. When \<open>make_flock_from_selection\<close> succeeds, it only appends to the log of
  notifications, and for every eligible entity of the selection: the number of "motion
  started" notifications it appends for the entity is 1 if the entity had no movement
  state or had arrived, and 0 if it was moving or settling; an entity without a movement
  state gets one with velocity zero and state \<open>STATE_MOVING\<close>, any other keeps its
  velocity and has its state set to \<open>STATE_MOVING\<close>.
\<close>

theorem motion_start_on_enrol:
  assumes "make_flock_from_selection kh_init_ok sel target w = Inr (True, w')"
    and "u \<in> set sel" and "eligible (entities w u)"
  shows "take (length (notified w)) (notified w') = notified w
       \<and> count_list (drop (length (notified w)) (notified w')) (EVENT_MOTION_START u) =
           (case s_entity_state_table w u of
              None \<Rightarrow> 1
            | Some ms \<Rightarrow> if state ms = STATE_ARRIVED then 1 else 0)
       \<and> s_entity_state_table w' u =
           (case s_entity_state_table w u of
              None \<Rightarrow> Some \<lparr>velocity = (0, 0), state = STATE_MOVING\<rparr>
            | Some ms \<Rightarrow> Some (ms\<lparr>state := STATE_MOVING\<rparr>))"
proof -
  note s = make_flock_success [OF assms(1)]
  have u: "u \<in> set (eligible_in (entities w) sel)"
    using assms(2,3) by (simp add: eligible_in_def)
  have "count_list (drop (length (notified w)) (notified w')) (EVENT_MOTION_START u) =
          (if starts_motion (s_entity_state_table w) u then 1 else 0)"
    using count_list_map_filter [OF s(3) u] by (simp add: s(5))
  then show ?thesis
    using u by (simp add: s(4) s(5) starts_motion_def enrolled_def split: option.splits)
qed

theorem motion_start_on_enrol_witness:
  "make_flock_from_selection True [0, 1, 3] (9, 9) mixed_world = Inr (True, mixed_after)
   \<and> 1 \<in> set [0, 1, 3 :: nat]
   \<and> eligible (entities mixed_world 1)
   \<and> count_list (drop (length (notified mixed_world)) (notified mixed_after))
        (EVENT_MOTION_START 1) = 1
   \<and> s_entity_state_table mixed_after 1 = Some \<lparr>velocity = (0, 0), state = STATE_MOVING\<rparr>"
proof -
  have 1: "1 \<in> set [0, 1, 3 :: nat]" by simp
  have 2: "eligible (entities mixed_world 1)"
    by (simp add: mixed_world_def unit_at_def eligible_def)
  have 3: "s_entity_state_table mixed_world (Suc 0) =
             Some \<lparr>velocity = (0, 0), state = STATE_ARRIVED\<rparr>"
    by (simp add: mixed_world_def)
  from motion_start_on_enrol [OF mixed_make_flock 1 2]
  have "count_list (drop (length (notified mixed_world)) (notified mixed_after))
        (EVENT_MOTION_START 1) = 1
      \<and> s_entity_state_table mixed_after 1 = Some \<lparr>velocity = (0, 0), state = STATE_MOVING\<rparr>"
    by (simp add: 3)
  with mixed_make_flock 1 2 show ?thesis by blast
qed

text \<open>A flock without members is disbanded by the next tick before anything else happens.\<close>

lemma empty_flock_disbanded:
  "on_30hz_tick s_map (w\<lparr>s_flocks := s_flocks w @ [\<lparr>ents = [], target_xz = t\<rparr>]\<rparr>) =
   on_30hz_tick s_map w"
proof -
  have "kv_del (s_flocks w @ [\<lparr>ents = [], target_xz = t\<rparr>]) (length (s_flocks w)) = s_flocks w"
    by (simp add: kv_del_def)
  then show ?thesis
    by (simp add: on_30hz_tick_def Let_def)
qed

text \<open>
  Claim C5, as the claim states it, fails: for a selection of one static entity and an
  empty registry, \<open>make_flock_from_selection\<close> returns true and leaves a flock without
  members in the registry.
\<close>

theorem empty_flock_counterexample:
  "make_flock_from_selection True [0] (5, 5) static_world =
     Inr (True, static_world\<lparr>s_flocks := [\<lparr>ents = [], target_xz = (5, 5)\<rparr>]\<rparr>)"
  by (simp add: make_flock_from_selection_def static_world_def static_unit_def eligible_def)

text \<open>
  Claim C5, amended. For a selection in which every entity is static or has a maximum
  speed of zero, \<open>make_flock_from_selection\<close> returns true when \<open>kh_init\<close> succeeds and
  false when it fails; on success it changes nothing but the registry, to which it appends
  one flock without members. For any selection, the movement state of an ineligible entity
  is left as it was, so an ineligible entity is never given one.
\<close>

theorem ineligible_selection:
  "((\<forall>u\<in>set sel. \<not> eligible (entities w u)) \<longrightarrow>
      make_flock_from_selection True sel target w =
        Inr (True, w\<lparr>s_flocks := s_flocks w @ [\<lparr>ents = [], target_xz = target\<rparr>]\<rparr>)
    \<and> make_flock_from_selection False sel target w = Inr (False, w))
   \<and> (make_flock_from_selection kh_init_ok sel' target' w = Inr (r, w') \<longrightarrow>
        \<not> eligible (entities w u) \<longrightarrow> s_entity_state_table w' u = s_entity_state_table w u)"
proof (intro conjI impI)
  assume "\<forall>u\<in>set sel. \<not> eligible (entities w u)"
  then have e: "eligible_in (entities w) sel = []" by (simp add: no_eligible)
  show "make_flock_from_selection True sel target w =
        Inr (True, w\<lparr>s_flocks := s_flocks w @ [\<lparr>ents = [], target_xz = target\<rparr>]\<rparr>)"
    by (simp add: make_flock_from_selection_def remove_selection_none [OF e] enrol_none [OF e])
  show "make_flock_from_selection False sel target w = Inr (False, w)"
    by (simp add: make_flock_from_selection_def remove_selection_none [OF e])
next
  assume m: "make_flock_from_selection kh_init_ok sel' target' w = Inr (r, w')"
    and u: "\<not> eligible (entities w u)"
  from u have "u \<notin> set (eligible_in (entities w) sel')" by (simp add: eligible_in_def)
  then show "s_entity_state_table w' u = s_entity_state_table w u"
    using m make_flock_success(4) [of kh_init_ok sel' target' w w']
      make_flock_failure(2) [of kh_init_ok sel' target' w w']
    by (cases r) auto
qed

theorem ineligible_selection_witness:
  "\<not> eligible (entities mixed_world 0)
   \<and> make_flock_from_selection True [0] (5, 5) mixed_world =
       Inr (True, mixed_world\<lparr>s_flocks := s_flocks mixed_world @ [\<lparr>ents = [], target_xz = (5, 5)\<rparr>]\<rparr>)
   \<and> make_flock_from_selection False [0] (5, 5) mixed_world = Inr (False, mixed_world)
   \<and> make_flock_from_selection True [0, 1, 3] (9, 9) mixed_world = Inr (True, mixed_after)
   \<and> s_entity_state_table mixed_after 0 = s_entity_state_table mixed_world 0"
proof -
  have 2: "\<not> eligible (entities mixed_world 0)"
    by (simp add: mixed_world_def static_unit_def eligible_def)
  then have 1: "\<forall>u\<in>set [0]. \<not> eligible (entities mixed_world u)"
    by simp
  from ineligible_selection [where sel = "[0]" and w = mixed_world and target = "(5, 5)"
      and kh_init_ok = True and sel' = "[0, 1, 3]" and target' = "(9, 9)" and r = True
      and w' = mixed_after and u = 0] 1 2 mixed_make_flock
  show ?thesis by blast
qed

text \<open>
  Claim C6, as the claim states it, fails: with entities 0 and 1 in one flock, a call for
  the selection of entity 0 in which \<open>kh_init\<close> fails returns false and has removed
  entity 0 from the flock.
\<close>

theorem failure_mutates_counterexample:
  "make_flock_from_selection False [0] (9, 9) paired_world =
     Inr (False, paired_world\<lparr>s_flocks := [\<lparr>ents = [1], target_xz = (3, 0)\<rparr>]\<rparr>)
   \<and> s_flocks paired_world = [\<lparr>ents = [0, 1], target_xz = (3, 0)\<rparr>]"
  by (simp add: make_flock_from_selection_def paired_world_def lone_store_def unit_at_def
      eligible_def kv_del_def)

text \<open>
  Claim C6, amended. When \<open>make_flock_from_selection\<close> returns false, \<open>kh_init\<close> has
  failed; the table of movement states, the entities and the notifications are as before
  and no flock has been added; the eligible entities of the selection have been removed
  from the flocks of the registry, and, if there is such an entity, the flocks without
  members are gone.
\<close>

theorem failure_leaves_tables:
  assumes "make_flock_from_selection kh_init_ok sel target w = Inr (False, w')"
  shows "\<not> kh_init_ok
       \<and> s_entity_state_table w' = s_entity_state_table w
       \<and> entities w' = entities w
       \<and> notified w' = notified w
       \<and> mset (s_flocks w') =
           (if eligible_in (entities w) sel = [] then mset (s_flocks w)
            else filter_mset has_members
                   (image_mset (strip_flock (set (eligible_in (entities w) sel)))
                      (mset (s_flocks w))))"
  using make_flock_failure [OF assms] by (simp add: remove_selection_mset)

theorem failure_leaves_tables_witness:
  "make_flock_from_selection False [0] (9, 9) paired_world =
     Inr (False, paired_world\<lparr>s_flocks := [\<lparr>ents = [1], target_xz = (3, 0)\<rparr>]\<rparr>)
   \<and> s_entity_state_table (paired_world\<lparr>s_flocks := [\<lparr>ents = [1], target_xz = (3, 0)\<rparr>]\<rparr>) =
       s_entity_state_table paired_world
   \<and> mset (s_flocks (paired_world\<lparr>s_flocks := [\<lparr>ents = [1], target_xz = (3, 0)\<rparr>]\<rparr>)) =
       (if eligible_in (entities paired_world) [0] = [] then mset (s_flocks paired_world)
        else filter_mset has_members
               (image_mset (strip_flock (set (eligible_in (entities paired_world) [0])))
                  (mset (s_flocks paired_world))))"
  using failure_leaves_tables [OF paired_failure] paired_failure by blast

subsection \<open>The tick: one entity, and the loops\<close>

lemma update_entity_cases:
  assumes "update_entity s_map fl cur w = Inr w'"
  obtains ms f nv ms' where
    "s_entity_state_table w cur = Some ms"
    "total_steering_force (s_entity_state_table w) (entities w) cur fl TICK_RES = Inr f"
    "vec2_truncate (PFM_Vec2_Add (velocity ms) (PFM_Vec2_Scale f (1 / ENTITY_MASS)))
       (max_speed (entities w cur) / real_of_int TICK_RES) = Inr nv"
    "s_flocks w' = s_flocks w"
    "entities w' = (entities w)(cur := moved_to s_map (entities w cur) nv)"
    "s_entity_state_table w' = (s_entity_state_table w)(cur \<mapsto> ms')"
    "ms' = ms\<lparr>velocity := nv\<rparr> \<and> notified w' = notified w
     \<or> state ms \<noteq> STATE_ARRIVED \<and> ms' = \<lparr>velocity = (0, 0), state = STATE_ARRIVED\<rparr>
         \<and> notified w' = notified w @ [EVENT_MOTION_END cur]
     \<or> state ms = STATE_MOVING \<and> ms' = \<lparr>velocity = (0, 0), state = STATE_SETTLING\<rparr>
         \<and> notified w' = notified w @ [EVENT_MOTION_END cur]
     \<or> state ms = STATE_MOVING \<and> ms' = \<lparr>velocity = nv, state = STATE_SETTLING\<rparr>
         \<and> notified w' = notified w"
proof -
  from assms obtain f where f: "total_steering_force (s_entity_state_table w) (entities w) cur fl TICK_RES = Inr f"
    by (auto simp: update_entity_def split: sum.splits)
  from assms f obtain ms where ms: "s_entity_state_table w cur = Some ms"
    by (auto simp: update_entity_def split: option.splits)
  from assms f ms obtain nv where nv: "vec2_truncate (PFM_Vec2_Add (velocity ms) (PFM_Vec2_Scale f (1 / ENTITY_MASS)))
       (max_speed (entities w cur) / real_of_int TICK_RES) = Inr nv"
    by (auto simp: update_entity_def split: sum.splits)
  let ?es = "(entities w)(cur := moved_to s_map (entities w cur) nv)"
  have "s_flocks w' = s_flocks w \<and> entities w' = ?es \<and>
    (\<exists>ms'. s_entity_state_table w' = (s_entity_state_table w)(cur \<mapsto> ms') \<and>
    (ms' = ms\<lparr>velocity := nv\<rparr> \<and> notified w' = notified w
     \<or> state ms \<noteq> STATE_ARRIVED \<and> ms' = \<lparr>velocity = (0, 0), state = STATE_ARRIVED\<rparr>
         \<and> notified w' = notified w @ [EVENT_MOTION_END cur]
     \<or> state ms = STATE_MOVING \<and> ms' = \<lparr>velocity = (0, 0), state = STATE_SETTLING\<rparr>
         \<and> notified w' = notified w @ [EVENT_MOTION_END cur]
     \<or> state ms = STATE_MOVING \<and> ms' = \<lparr>velocity = nv, state = STATE_SETTLING\<rparr>
         \<and> notified w' = notified w))"
  proof (cases "state ms")
    case STATE_MOVING
    then show ?thesis using assms f ms nv
      by (auto simp: update_entity_def moved_to_def Let_def split: sum.splits if_splits
          simp del: PFM_Vec2_Len.simps)
  next
    case STATE_SETTLING
    then show ?thesis using assms f ms nv
      by (auto simp: update_entity_def moved_to_def Let_def split: if_splits
          simp del: PFM_Vec2_Len.simps)
  next
    case STATE_ARRIVED
    then show ?thesis using assms f ms nv
      by (auto simp: update_entity_def moved_to_def Let_def)
  qed
  with f ms nv that show ?thesis by blast
qed

lemma update_members_rel:
  assumes refl: "\<And>w. R w w"
    and trans: "\<And>a b c. R a b \<Longrightarrow> R b c \<Longrightarrow> R a c"
    and step: "\<And>cur w w'. update_entity s_map fl cur w = Inr w' \<Longrightarrow> R w w'"
  shows "update_members s_map fl xs w = Inr w' \<Longrightarrow> R w w'"
proof (induction xs arbitrary: w)
  case Nil
  then show ?case by (simp add: refl)
next
  case (Cons cur xs)
  then obtain w1 where 1: "update_entity s_map fl cur w = Inr w1"
    and 2: "update_members s_map fl xs w1 = Inr w'"
    by (auto split: sum.splits)
  from step [OF 1] Cons.IH [OF 2] show ?case by (rule trans)
qed

lemma tick_flocks_rel:
  assumes refl: "\<And>w. R w w"
    and trans: "\<And>a b c. R a b \<Longrightarrow> R b c \<Longrightarrow> R a c"
    and step: "\<And>fl cur w w'. update_entity s_map fl cur w = Inr w' \<Longrightarrow> R w w'"
    and del: "\<And>w fs. R w (w\<lparr>s_flocks := fs\<rparr>)"
  shows "tick_flocks s_map i w = Inr w' \<Longrightarrow> R w w'"
proof (induction i arbitrary: w)
  case 0
  then show ?case by (simp add: refl)
next
  case (Suc i)
  let ?fl = "s_flocks w ! i"
  from Suc.prems obtain disband where d: "can_disband (s_entity_state_table w) (ents ?fl) = Inr disband"
    by (auto simp: Let_def split: sum.splits)
  show ?case
  proof (cases disband)
    case True
    with Suc.prems d have "tick_flocks s_map i (w\<lparr>s_flocks := kv_del (s_flocks w) i\<rparr>) = Inr w'"
      by (simp add: Let_def)
    from del Suc.IH [OF this] show ?thesis by (rule trans)
  next
    case False
    with Suc.prems d obtain w1 where 1: "update_members s_map ?fl (ents ?fl) w = Inr w1"
      and 2: "tick_flocks s_map i w1 = Inr w'"
      by (auto simp: Let_def split: sum.splits)
    have "R w w1"
      using refl trans step 1 by (rule update_members_rel)
    from this Suc.IH [OF 2] show ?thesis by (rule trans)
  qed
qed

lemma flocks_kept_members:
  "update_members s_map fl xs w = Inr w' \<Longrightarrow> s_flocks w' = s_flocks w"
  by (rule update_members_rel [where R = "\<lambda>a b. s_flocks b = s_flocks a", rotated -1])
     (auto elim: update_entity_cases)

subsection \<open>The tick: phases\<close>

lemma phase_advances_refl: "phase_advances w w"
  by (simp add: phase_advances_def)

lemma phase_advances_trans:
  "phase_advances a b \<Longrightarrow> phase_advances b c \<Longrightarrow> phase_advances a c"
  unfolding phase_advances_def by (meson order_trans)

lemma phase_rank_le_2: "phase_rank s \<le> 2"
  by (cases s) simp_all

lemma phase_advances_step:
  assumes "update_entity s_map fl cur w = Inr w'"
  shows "phase_advances w w'"
  using assms
  by (rule update_entity_cases) (auto simp: phase_advances_def phase_rank_le_2)

lemma phase_advances_tick:
  "on_30hz_tick s_map w = Inr w' \<Longrightarrow> phase_advances w w'"
  unfolding on_30hz_tick_def
  by (rule tick_flocks_rel [where R = phase_advances, OF phase_advances_refl phase_advances_trans
        phase_advances_step])
     (simp_all add: phase_advances_def)

text \<open>
  Inside one tick the \<open>STATE_MOVING\<close> case can write \<open>STATE_ARRIVED\<close> and then
  \<open>STATE_SETTLING\<close> for the same entity: in \<open>mixed_world\<close> entity 2 comes within
  \<open>ARRIVE_THRESHOLD_DIST\<close> of the target next to entity 1, which has arrived. The end of
  its motion is notified and it ends the tick settling, at rest. From tick to tick this
  is a step from moving to settling.
\<close>

lemma mixed_tick: "on_30hz_tick flat_map mixed_world = Inr mixed_ticked"
  by (simp add: eval_defs mixed_world_def mixed_ticked_def unit_at_def flat_map_def Len_x_axis
      del: PFM_Vec2_Len.simps)

text \<open>
  Claim C1. Over any number of ticks that run without error, every entity that has a
  movement state keeps one, and its phase never goes back in the order \<open>STATE_MOVING\<close>,
  \<open>STATE_SETTLING\<close>, \<open>STATE_ARRIVED\<close>: a settling entity is never moving again, an
  arrived entity is never settling or moving again. (Only \<open>make_flock_from_selection\<close>
  sets a state back to \<open>STATE_MOVING\<close>.)
\<close>

theorem phase_monotonic:
  assumes "run_ticks s_map n w = Inr w'" and "s_entity_state_table w u = Some ms"
  shows "\<exists>ms'. s_entity_state_table w' u = Some ms'
              \<and> phase_rank (state ms) \<le> phase_rank (state ms')"
proof -
  have "run_ticks s_map n w = Inr w' \<Longrightarrow> phase_advances w w'"
  proof (induction n arbitrary: w)
    case 0
    then show ?case by (simp add: phase_advances_refl)
  next
    case (Suc n)
    then obtain w1 where 1: "on_30hz_tick s_map w = Inr w1" and 2: "run_ticks s_map n w1 = Inr w'"
      by (auto split: sum.splits)
    from phase_advances_tick [OF 1] Suc.IH [OF 2] show ?case by (rule phase_advances_trans)
  qed
  with assms show ?thesis by (simp add: phase_advances_def)
qed

theorem phase_monotonic_witness:
  "run_ticks flat_map 1 lone_world = Inr lone_after
   \<and> s_entity_state_table lone_world 0 = Some \<lparr>velocity = (0, 0), state = STATE_MOVING\<rparr>
   \<and> (\<exists>ms'. s_entity_state_table lone_after 0 = Some ms'
            \<and> phase_rank STATE_MOVING \<le> phase_rank (state ms'))"
proof -
  have r: "run_ticks flat_map 1 lone_world = Inr lone_after"
    by (simp add: lone_tick)
  have t: "s_entity_state_table lone_world 0 = Some \<lparr>velocity = (0, 0), state = STATE_MOVING\<rparr>"
    by (simp add: lone_world_def lone_table_def)
  from phase_monotonic [OF r t]
  have "\<exists>ms'. s_entity_state_table lone_after 0 = Some ms'
            \<and> phase_rank STATE_MOVING \<le> phase_rank (state ms')"
    by simp
  with r t show ?thesis by blast
qed

subsection \<open>The tick: entities that have arrived are at rest\<close>







subsection \<open>The tick: the velocity clamp\<close>

lemma max_speed_moved_to [simp]: "max_speed (moved_to s_map e v) = max_speed e"
  by (simp add: moved_to_def Let_def)

lemma speeds_kept_refl: "speeds_kept w w"
  by (simp add: speeds_kept_def)

lemma speeds_kept_trans: "speeds_kept a b \<Longrightarrow> speeds_kept b c \<Longrightarrow> speeds_kept a c"
  by (simp add: speeds_kept_def)

lemma speed_clamped_step:
  assumes "update_entity s_map fl cur w = Inr w'" and "0 \<le> max_speed (entities w cur)"
  shows "speed_clamped w' cur"
  using assms(1)
proof (rule update_entity_cases)
  fix ms f nv ms'
  assume nv: "vec2_truncate (PFM_Vec2_Add (velocity ms) (PFM_Vec2_Scale f (1 / ENTITY_MASS)))
       (max_speed (entities w cur) / real_of_int TICK_RES) = Inr nv"
    and es: "entities w' = (entities w)(cur := moved_to s_map (entities w cur) nv)"
    and tbl: "s_entity_state_table w' = (s_entity_state_table w)(cur \<mapsto> ms')"
    and alt: "ms' = ms\<lparr>velocity := nv\<rparr> \<and> notified w' = notified w
     \<or> state ms \<noteq> STATE_ARRIVED \<and> ms' = \<lparr>velocity = (0, 0), state = STATE_ARRIVED\<rparr>
         \<and> notified w' = notified w @ [EVENT_MOTION_END cur]
     \<or> state ms = STATE_MOVING \<and> ms' = \<lparr>velocity = (0, 0), state = STATE_SETTLING\<rparr>
         \<and> notified w' = notified w @ [EVENT_MOTION_END cur]
     \<or> state ms = STATE_MOVING \<and> ms' = \<lparr>velocity = nv, state = STATE_SETTLING\<rparr>
         \<and> notified w' = notified w"
  have m: "0 \<le> max_speed (entities w cur) / real_of_int TICK_RES"
    using assms(2) by (simp add: TICK_RES_def)
  have "PFM_Vec2_Len nv \<le> max_speed (entities w cur) / real_of_int TICK_RES"
    using nv m by (rule vec2_truncate_bound)
  moreover from alt have "velocity ms' = nv \<or> velocity ms' = (0, 0)" by auto
  ultimately have "PFM_Vec2_Len (velocity ms') \<le> max_speed (entities w cur) / real_of_int TICK_RES"
    using m by auto
  then show ?thesis by (simp add: speed_clamped_def tbl es)
qed

lemma speeds_kept_step:
  assumes "update_entity s_map fl cur w = Inr w'"
  shows "speeds_kept w w'"
proof -
  have 1: "\<forall>u. max_speed (entities w' u) = max_speed (entities w u)"
    using assms by (rule update_entity_cases) simp
  have 2: "\<forall>u. u \<noteq> cur \<longrightarrow> s_entity_state_table w' u = s_entity_state_table w u"
    using assms by (rule update_entity_cases) simp
  have 3: "s_entity_state_table w cur \<noteq> None"
    using assms by (rule update_entity_cases) simp
  show ?thesis
    unfolding speeds_kept_def
  proof (intro conjI impI allI)
    fix u show "max_speed (entities w' u) = max_speed (entities w u)" using 1 by simp
  next
    fix u assume nn: "\<forall>u. 0 \<le> max_speed (entities w u)" and c: "speed_clamped w u"
    show "speed_clamped w' u"
    proof (cases "u = cur")
      case True
      then show ?thesis using speed_clamped_step [OF assms] nn by simp
    next
      case False
      then show ?thesis using c 1 2 by (simp add: speed_clamped_def)
    qed
  next
    fix u assume "s_entity_state_table w u = None"
    then show "s_entity_state_table w' u = None" using 2 3 by (cases "u = cur") auto
  qed
qed

lemma speeds_kept_flocks: "speeds_kept w (w\<lparr>s_flocks := fs\<rparr>)"
  by (simp add: speeds_kept_def speed_clamped_def)

lemma speeds_kept_tick_flocks:
  "tick_flocks s_map i w = Inr w' \<Longrightarrow> speeds_kept w w'"
  by (rule tick_flocks_rel [where R = speeds_kept, OF speeds_kept_refl speeds_kept_trans
        speeds_kept_step speeds_kept_flocks])

lemma speeds_kept_members:
  "update_members s_map fl xs w = Inr w' \<Longrightarrow> speeds_kept w w'"
  by (rule update_members_rel [where R = speeds_kept, OF speeds_kept_refl speeds_kept_trans
        speeds_kept_step])

lemma update_members_clamped:
  assumes "update_members s_map fl xs w = Inr w'" and "\<forall>u. 0 \<le> max_speed (entities w u)"
  shows "\<forall>u\<in>set xs. speed_clamped w' u"
  using assms
proof (induction xs arbitrary: w)
  case Nil
  then show ?case by simp
next
  case (Cons cur xs)
  then obtain w1 where 1: "update_entity s_map fl cur w = Inr w1"
    and 2: "update_members s_map fl xs w1 = Inr w'"
    by (auto split: sum.splits)
  have k1: "speeds_kept w w1" using 1 by (rule speeds_kept_step)
  then have nn1: "\<forall>u. 0 \<le> max_speed (entities w1 u)"
    using Cons.prems(2) by (simp add: speeds_kept_def)
  have "speed_clamped w1 cur" using 1 Cons.prems(2) by (simp add: speed_clamped_step)
  moreover have "speeds_kept w1 w'" using 2 by (rule speeds_kept_members)
  ultimately have "speed_clamped w' cur" using nn1 by (simp add: speeds_kept_def)
  with Cons.IH [OF 2 nn1] show ?case by simp
qed

lemma tick_flocks_clamped:
  assumes "tick_flocks s_map i w = Inr w'" and "i \<le> length (s_flocks w)"
    and "\<forall>u. 0 \<le> max_speed (entities w u)"
  shows "\<forall>g\<in>set (s_flocks w'). g \<in> set (drop i (s_flocks w)) \<or> (\<forall>u\<in>set (ents g). speed_clamped w' u)"
  using assms
proof (induction i arbitrary: w)
  case 0
  then show ?case by simp
next
  case (Suc i)
  then have i: "i < length (s_flocks w)" by simp
  let ?fl = "s_flocks w ! i"
  have dr: "drop i (s_flocks w) = ?fl # drop (Suc i) (s_flocks w)"
    using i by (simp add: Cons_nth_drop_Suc)
  from Suc.prems obtain disband where d: "can_disband (s_entity_state_table w) (ents ?fl) = Inr disband"
    by (auto simp: Let_def split: sum.splits)
  show ?case
  proof (cases disband)
    case True
    let ?w1 = "w\<lparr>s_flocks := kv_del (s_flocks w) i\<rparr>"
    from True Suc.prems d have t: "tick_flocks s_map i ?w1 = Inr w'"
      by (simp add: Let_def)
    have "i \<le> length (s_flocks ?w1)" using i by (simp add: length_kv_del)
    from Suc.IH [OF t this] Suc.prems(3) show ?thesis
      using i by (simp add: set_drop_kv_del)
  next
    case False
    with Suc.prems d obtain w1 where 1: "update_members s_map ?fl (ents ?fl) w = Inr w1"
      and 2: "tick_flocks s_map i w1 = Inr w'"
      by (auto simp: Let_def split: sum.splits)
    have fl1: "s_flocks w1 = s_flocks w"
      using 1 by (rule update_members_rel [where R = "\<lambda>a b. s_flocks b = s_flocks a", rotated -1])
        (auto elim: update_entity_cases)
    have k1: "speeds_kept w w1" using 1 by (rule speeds_kept_members)
    then have nn1: "\<forall>u. 0 \<le> max_speed (entities w1 u)"
      using Suc.prems(3) by (simp add: speeds_kept_def)
    have c1: "\<forall>u\<in>set (ents ?fl). speed_clamped w1 u"
      using 1 Suc.prems(3) by (rule update_members_clamped)
    have "speeds_kept w1 w'" using 2 by (rule speeds_kept_tick_flocks)
    with c1 nn1 have c: "\<forall>u\<in>set (ents ?fl). speed_clamped w' u"
      by (simp add: speeds_kept_def)
    have "i \<le> length (s_flocks w1)" using i fl1 by simp
    from Suc.IH [OF 2 this nn1] c show ?thesis
      by (auto simp: fl1 dr)
  qed
qed

text \<open>
  In exact arithmetic, and if no entity has a negative maximum speed: after a tick that
  runs without error, every member of every flock in the registry (these are the entities
  the tick has integrated) has a stored velocity of length at most
  \<open>max_speed / TICK_RES\<close>, and a bound that held for all stored velocities before the
  tick holds after it. As for the force, the rounding of \<open>vec2_truncate\<close> in \<open>float\<close> is
  outside the model.
\<close>

lemma velocity_clamped:
  assumes "on_30hz_tick s_map w = Inr w'" and "\<forall>u. 0 \<le> max_speed (entities w u)"
  shows "(\<forall>fl\<in>set (s_flocks w'). \<forall>u\<in>set (ents fl).
            \<exists>ms. s_entity_state_table w' u = Some ms
               \<and> PFM_Vec2_Len (velocity ms) \<le> max_speed (entities w' u) / real_of_int TICK_RES)
       \<and> ((\<forall>u ms. s_entity_state_table w u = Some ms \<longrightarrow>
              PFM_Vec2_Len (velocity ms) \<le> max_speed (entities w u) / real_of_int TICK_RES) \<longrightarrow>
           (\<forall>u ms. s_entity_state_table w' u = Some ms \<longrightarrow>
              PFM_Vec2_Len (velocity ms) \<le> max_speed (entities w' u) / real_of_int TICK_RES))"
proof (intro conjI impI)
  from tick_flocks_clamped [OF assms(1) [unfolded on_30hz_tick_def] order_refl assms(2)]
  show "\<forall>fl\<in>set (s_flocks w'). \<forall>u\<in>set (ents fl).
            \<exists>ms. s_entity_state_table w' u = Some ms
               \<and> PFM_Vec2_Len (velocity ms) \<le> max_speed (entities w' u) / real_of_int TICK_RES"
    by (simp add: speed_clamped_def)
next
  assume inv: "\<forall>u ms. s_entity_state_table w u = Some ms \<longrightarrow>
              PFM_Vec2_Len (velocity ms) \<le> max_speed (entities w u) / real_of_int TICK_RES"
  have k: "speeds_kept w w'"
    using assms(1) unfolding on_30hz_tick_def by (rule speeds_kept_tick_flocks)
  show "\<forall>u ms. s_entity_state_table w' u = Some ms \<longrightarrow>
              PFM_Vec2_Len (velocity ms) \<le> max_speed (entities w' u) / real_of_int TICK_RES"
  proof (intro allI impI)
    fix u ms assume s: "s_entity_state_table w' u = Some ms"
    then have "s_entity_state_table w u \<noteq> None"
      using k assms(2) by (auto simp: speeds_kept_def)
    then have "speed_clamped w u" using inv by (auto simp: speed_clamped_def)
    then have "speed_clamped w' u" using k assms(2) by (simp add: speeds_kept_def)
    with s show "PFM_Vec2_Len (velocity ms) \<le> max_speed (entities w' u) / real_of_int TICK_RES"
      by (simp add: speed_clamped_def)
  qed
qed

text \<open>
  An entity with a negative maximum speed passes the test \<open>max_speed == 0.0f\<close> of
  \<open>make_flock_from_selection\<close>. The tick truncates its velocity to the length
  \<open>- max_speed / TICK_RES\<close>, here 1, which is above \<open>max_speed / TICK_RES\<close>, here -1.
\<close>

lemma negative_speed_tick:
  "on_30hz_tick flat_map reverse_world = Inr reverse_after
   \<and> s_entity_state_table reverse_after 0 = Some \<lparr>velocity = (1, 0), state = STATE_MOVING\<rparr>
   \<and> max_speed (entities reverse_after 0) / real_of_int TICK_RES = - 1
   \<and> PFM_Vec2_Len (1, 0) = 1"
  by (simp add: eval_defs reverse_world_def reverse_after_def reverse_unit_def flat_map_def
        Len_x_axis del: PFM_Vec2_Len.simps)

text \<open>
  Claim C4 says that after the integration step of every tick the stored velocity of an
  entity has a length of at most \<open>max_speed / TICK_RES\<close>, whatever the steering force, and
  the program, which truncates the new velocity to that end, misses it: in the world
  where entity 0 has been sent to the point where it stands, the steering force of the
  first tick is NaN (the division by zero in \<open>arrive_force\<close>), so is the sum with the old
  velocity, \<open>vec2_truncate\<close> leaves a NaN as it is, and the tick stores it. The model
  stops at the division with \<open>DivisionByZero\<close>: the tick stores no velocity within the
  bound.
\<close>

theorem velocity_on_target:
  "make_flock_from_selection True [0] (0, 0) (G_Move_Init lone_store) = Inr (True, on_target_world)
   \<and> on_30hz_tick flat_map on_target_world = Inl DivisionByZero"
  by (simp add: on_target_reached)
     (simp add: eval_defs on_target_world_def lone_store_def unit_at_def flat_map_def)

subsection \<open>The tick: disbanding\<close>

lemma can_disband_iff:
  "can_disband tbl xs = Inr b \<Longrightarrow> b = (\<forall>u\<in>set xs. arrived tbl u)"
  by (induction xs) (auto simp: arrived_def split: option.splits if_splits)

lemma arrivals_kept_step:
  assumes "update_entity s_map fl cur w = Inr w'"
  shows "arrivals_kept w w'"
  using assms
  by (rule update_entity_cases) (auto simp: arrivals_kept_def arrived_def)

lemma arrivals_kept_members:
  "update_members s_map fl xs w = Inr w' \<Longrightarrow> arrivals_kept w w'"
  by (rule update_members_rel [where R = arrivals_kept, rotated -1])
     (auto simp: arrivals_kept_def dest: arrivals_kept_step)

lemma untouched_refl: "untouched u w w"
  by (simp add: untouched_def)

lemma untouched_trans:
  assumes "untouched u a b" and "untouched u b c"
  shows "untouched u a c"
proof -
  from assms(1) obtain e1 where 1: "notified b = notified a @ e1"
    "EVENT_MOTION_END u \<notin> set e1" "EVENT_MOTION_START u \<notin> set e1"
    by (auto simp: untouched_def)
  from assms(2) obtain e2 where 2: "notified c = notified b @ e2"
    "EVENT_MOTION_END u \<notin> set e2" "EVENT_MOTION_START u \<notin> set e2"
    by (auto simp: untouched_def)
  have "notified c = notified a @ (e1 @ e2)" using 1(1) 2(1) by simp
  moreover have "EVENT_MOTION_END u \<notin> set (e1 @ e2)" "EVENT_MOTION_START u \<notin> set (e1 @ e2)"
    using 1 2 by simp_all
  ultimately have "\<exists>evs. notified c = notified a @ evs \<and> EVENT_MOTION_END u \<notin> set evs
            \<and> EVENT_MOTION_START u \<notin> set evs" by blast
  with assms show ?thesis by (simp add: untouched_def)
qed

lemma untouched_step:
  assumes "update_entity s_map fl cur w = Inr w'" and "u \<noteq> cur"
  shows "untouched u w w'"
proof -
  have 1: "s_entity_state_table w' u = s_entity_state_table w u \<and> entities w' u = entities w u"
    using assms(1) by (rule update_entity_cases) (simp add: assms(2))
  have "notified w' = notified w @ [] \<or> notified w' = notified w @ [EVENT_MOTION_END cur]"
    using assms(1) by (rule update_entity_cases) auto
  then have "\<exists>evs. notified w' = notified w @ evs \<and> EVENT_MOTION_END u \<notin> set evs
            \<and> EVENT_MOTION_START u \<notin> set evs"
    using assms(2) by (elim disjE) (rule exI [of _ "[]"], simp, rule exI [of _ "[EVENT_MOTION_END cur]"], simp)
  with 1 show ?thesis by (simp add: untouched_def)
qed

lemma untouched_members:
  assumes "update_members s_map fl xs w = Inr w'" and "u \<notin> set xs"
  shows "untouched u w w'"
  using assms
proof (induction xs arbitrary: w)
  case Nil
  then show ?case by (simp add: untouched_refl)
next
  case (Cons cur xs)
  then obtain w1 where 1: "update_entity s_map fl cur w = Inr w1"
    and 2: "update_members s_map fl xs w1 = Inr w'"
    by (auto split: sum.splits)
  from Cons.prems(2) have "u \<noteq> cur" "u \<notin> set xs" by auto
  from untouched_step [OF 1 this(1)] Cons.IH [OF 2 this(2)] show ?case
    by (rule untouched_trans)
qed

lemma tick_flocks_survivors:
  assumes "tick_flocks s_map i w = Inr w'" and "i \<le> length (s_flocks w)"
  shows "\<forall>g\<in>set (s_flocks w'). g \<in> set (drop i (s_flocks w)) \<or> \<not> all_arrived (s_entity_state_table w) g"
  using assms
proof (induction i arbitrary: w)
  case 0
  then show ?case by simp
next
  case (Suc i)
  then have i: "i < length (s_flocks w)" by simp
  let ?fl = "s_flocks w ! i"
  have dr: "drop i (s_flocks w) = ?fl # drop (Suc i) (s_flocks w)"
    using i by (simp add: Cons_nth_drop_Suc)
  from Suc.prems obtain disband where d: "can_disband (s_entity_state_table w) (ents ?fl) = Inr disband"
    by (auto simp: Let_def split: sum.splits)
  show ?case
  proof (cases disband)
    case True
    let ?w1 = "w\<lparr>s_flocks := kv_del (s_flocks w) i\<rparr>"
    from True Suc.prems d have t: "tick_flocks s_map i ?w1 = Inr w'"
      by (simp add: Let_def)
    have "i \<le> length (s_flocks ?w1)" using i by (simp add: length_kv_del)
    from Suc.IH [OF t this] show ?thesis
      using i by (simp add: set_drop_kv_del)
  next
    case False
    with Suc.prems d obtain w1 where 1: "update_members s_map ?fl (ents ?fl) w = Inr w1"
      and 2: "tick_flocks s_map i w1 = Inr w'"
      by (auto simp: Let_def split: sum.splits)
    have fl1: "s_flocks w1 = s_flocks w" using 1 by (rule flocks_kept_members)
    have nd: "\<not> all_arrived (s_entity_state_table w) ?fl"
      using can_disband_iff [OF d] False by (simp add: all_arrived_def)
    have keep: "\<And>g. all_arrived (s_entity_state_table w) g \<Longrightarrow> all_arrived (s_entity_state_table w1) g"
      using arrivals_kept_members [OF 1] by (simp add: arrivals_kept_def all_arrived_def)
    have "i \<le> length (s_flocks w1)" using i fl1 by simp
    from Suc.IH [OF 2 this] nd keep show ?thesis
      by (auto simp: fl1 dr)
  qed
qed

lemma tick_flocks_untouched:
  assumes "tick_flocks s_map i w = Inr w'" and "i \<le> length (s_flocks w)"
    and "\<forall>g\<in>set (take i (s_flocks w)). u \<in> set (ents g) \<longrightarrow> all_arrived (s_entity_state_table w) g"
  shows "untouched u w w'"
  using assms
proof (induction i arbitrary: w)
  case 0
  then show ?case by (simp add: untouched_refl)
next
  case (Suc i)
  then have i: "i < length (s_flocks w)" by simp
  let ?fl = "s_flocks w ! i"
  have tk: "take (Suc i) (s_flocks w) = take i (s_flocks w) @ [?fl]"
    using i by (simp add: take_Suc_conv_app_nth)
  from Suc.prems obtain disband where d: "can_disband (s_entity_state_table w) (ents ?fl) = Inr disband"
    by (auto simp: Let_def split: sum.splits)
  show ?case
  proof (cases disband)
    case True
    let ?w1 = "w\<lparr>s_flocks := kv_del (s_flocks w) i\<rparr>"
    from True Suc.prems d have t: "tick_flocks s_map i ?w1 = Inr w'"
      by (simp add: Let_def)
    have l: "i \<le> length (s_flocks ?w1)" using i by (simp add: length_kv_del)
    have h: "\<forall>g\<in>set (take i (s_flocks ?w1)). u \<in> set (ents g) \<longrightarrow> all_arrived (s_entity_state_table ?w1) g"
      using Suc.prems(3) i by (simp add: take_kv_del tk)
    have "untouched u ?w1 w'" using t l h by (rule Suc.IH)
    then show ?thesis by (simp add: untouched_def)
  next
    case False
    with Suc.prems d obtain w1 where 1: "update_members s_map ?fl (ents ?fl) w = Inr w1"
      and 2: "tick_flocks s_map i w1 = Inr w'"
      by (auto simp: Let_def split: sum.splits)
    have fl1: "s_flocks w1 = s_flocks w" using 1 by (rule flocks_kept_members)
    have nd: "\<not> all_arrived (s_entity_state_table w) ?fl"
      using can_disband_iff [OF d] False by (simp add: all_arrived_def)
    then have "u \<notin> set (ents ?fl)" using Suc.prems(3) by (auto simp: tk)
    with 1 have u1: "untouched u w w1" by (rule untouched_members)
    have keep: "\<And>g. all_arrived (s_entity_state_table w) g \<Longrightarrow> all_arrived (s_entity_state_table w1) g"
      using arrivals_kept_members [OF 1] by (simp add: arrivals_kept_def all_arrived_def)
    have l: "i \<le> length (s_flocks w1)" using i fl1 by simp
    have h: "\<forall>g\<in>set (take i (s_flocks w1)). u \<in> set (ents g) \<longrightarrow> all_arrived (s_entity_state_table w1) g"
      using Suc.prems(3) keep by (auto simp: fl1 tk)
    from u1 Suc.IH [OF 2 l h] show ?thesis by (rule untouched_trans)
  qed
qed

lemma shared_member_same_ents:
  assumes "one_flock_each fs" and "f \<in> set fs" and "g \<in> set fs"
    and "u \<in> set (ents f)" and "u \<in> set (ents g)"
  shows "ents g = ents f"
proof (rule ccontr)
  assume "ents g \<noteq> ents f"
  moreover have "ents f \<in> set (map ents fs)" "ents g \<in> set (map ents fs)"
    using assms(2,3) by auto
  ultimately have "set (ents g) \<inter> set (ents f) = {}"
    using assms(1) unfolding one_flock_each_def distinct_concat_iff by blast
  with assms(4,5) show False by auto
qed

text \<open>
  Claim C7. A flock of the registry whose members have all arrived when the tick starts
  is not in the registry after the tick. If moreover no entity is listed twice in the
  registry, the tick leaves the movement state and the entity of each of its members
  untouched and notifies no end of motion for them. In particular a flock of two arrived
  members is gone after the tick.
\<close>

theorem arrived_flock_disbanded:
  assumes "on_30hz_tick s_map w = Inr w'" and "fl \<in> set (s_flocks w)"
    and "\<forall>u\<in>set (ents fl). \<exists>ms. s_entity_state_table w u = Some ms \<and> state ms = STATE_ARRIVED"
  shows "fl \<notin> set (s_flocks w')
       \<and> (one_flock_each (s_flocks w) \<longrightarrow>
            (\<forall>u\<in>set (ents fl).
               s_entity_state_table w' u = s_entity_state_table w u
             \<and> entities w' u = entities w u
             \<and> (\<exists>evs. notified w' = notified w @ evs \<and> EVENT_MOTION_END u \<notin> set evs)))"
proof (intro conjI impI ballI)
  have a: "all_arrived (s_entity_state_table w) fl"
    using assms(3) by (auto simp: all_arrived_def arrived_def)
  from tick_flocks_survivors [OF assms(1) [unfolded on_30hz_tick_def] order_refl] a
  show "fl \<notin> set (s_flocks w')" by auto
  fix u assume one: "one_flock_each (s_flocks w)" and u: "u \<in> set (ents fl)"
  have "\<forall>g\<in>set (take (length (s_flocks w)) (s_flocks w)).
          u \<in> set (ents g) \<longrightarrow> all_arrived (s_entity_state_table w) g"
  proof (intro ballI impI)
    fix g assume "g \<in> set (take (length (s_flocks w)) (s_flocks w))" and ug: "u \<in> set (ents g)"
    then have "g \<in> set (s_flocks w)" by simp
    from one assms(2) this u ug have "ents g = ents fl" by (rule shared_member_same_ents)
    with a show "all_arrived (s_entity_state_table w) g" by (simp add: all_arrived_def)
  qed
  from tick_flocks_untouched [OF assms(1) [unfolded on_30hz_tick_def] order_refl this]
  have "untouched u w w'" .
  then show "s_entity_state_table w' u = s_entity_state_table w u"
    and "entities w' u = entities w u"
    and "\<exists>evs. notified w' = notified w @ evs \<and> EVENT_MOTION_END u \<notin> set evs"
    by (auto simp: untouched_def)
qed

theorem arrived_flock_disbanded_witness:
  "on_30hz_tick flat_map arrived_world = Inr (arrived_world\<lparr>s_flocks := []\<rparr>)
   \<and> \<lparr>ents = [0, 1], target_xz = (3, 0)\<rparr> \<in> set (s_flocks arrived_world)
   \<and> s_entity_state_table arrived_world 0 = Some \<lparr>velocity = (0, 0), state = STATE_ARRIVED\<rparr>
   \<and> s_entity_state_table arrived_world 1 = Some \<lparr>velocity = (0, 0), state = STATE_ARRIVED\<rparr>
   \<and> one_flock_each (s_flocks arrived_world)
   \<and> \<lparr>ents = [0, 1], target_xz = (3, 0)\<rparr> \<notin> set (s_flocks (arrived_world\<lparr>s_flocks := []\<rparr>))
   \<and> s_entity_state_table (arrived_world\<lparr>s_flocks := []\<rparr>) 1 = s_entity_state_table arrived_world 1
   \<and> entities (arrived_world\<lparr>s_flocks := []\<rparr>) 1 = entities arrived_world 1"
proof -
  have 1: "\<lparr>ents = [0, 1], target_xz = (3, 0)\<rparr> \<in> set (s_flocks arrived_world)"
    by (simp add: arrived_world_def)
  have a: "s_entity_state_table arrived_world 0 = Some \<lparr>velocity = (0, 0), state = STATE_ARRIVED\<rparr>"
    "s_entity_state_table arrived_world 1 = Some \<lparr>velocity = (0, 0), state = STATE_ARRIVED\<rparr>"
    by (simp_all add: arrived_world_def)
  then have 2: "\<forall>u\<in>set (ents \<lparr>ents = [0, 1], target_xz = (3, 0)\<rparr>).
         \<exists>ms. s_entity_state_table arrived_world u = Some ms \<and> state ms = STATE_ARRIVED"
    by simp
  have 3: "one_flock_each (s_flocks arrived_world)"
    by (simp add: arrived_world_def one_flock_each_def)
  have 4: "1 \<in> set (ents \<lparr>ents = [0, 1 :: nat], target_xz = (3 :: real, 0 :: real)\<rparr>)"
    by simp
  from arrived_flock_disbanded [OF arrived_tick 1 2] arrived_tick 1 a 3 4 show ?thesis
    by blast
qed

subsection \<open>The operations return\<close>

text \<open>
  The errors of the model are the failed assertions and the divisions by zero of the
  program. A tick on a world that is ready for it has none, and neither has
  \<open>make_flock_from_selection\<close> on a selection that lists no eligible entity twice.
\<close>

lemma truncate_MAX_FORCE_defined: "\<exists>r. vec2_truncate v MAX_FORCE = Inr r"
  by (simp add: vec2_truncate_clamp MAX_FORCE_def)

lemma vec2_truncate_defined:
  "0 \<le> m \<Longrightarrow> \<exists>r. vec2_truncate v m = Inr r"
  by (simp add: vec2_truncate_clamp)

lemma alignment_loop_defined:
  "\<forall>u\<in>set xs. tbl u \<noteq> None \<Longrightarrow> \<exists>r. alignment_loop tbl es ent xs acc = Inr r"
proof (induction xs arbitrary: acc)
  case Nil
  then show ?case by simp
next
  case (Cons cur xs)
  then have IH: "\<And>acc. \<exists>r. alignment_loop tbl es ent xs acc = Inr r" by simp
  from Cons.prems obtain ms where ms: "tbl cur = Some ms" by auto
  obtain ret n where acc: "acc = (ret, n)" by (cases acc)
  show ?case
    unfolding acc using IH ms by (simp del: PFM_Vec2_Len.simps PFM_Vec2_Add.simps PFM_Vec2_Sub.simps)
qed

lemma alignment_force_defined:
  assumes "\<forall>u\<in>set (ents fl). tbl u \<noteq> None" and "tbl ent = Some ms"
  shows "\<exists>f. alignment_force tbl es ent fl tick_res = Inr f"
proof -
  from alignment_loop_defined [OF assms(1)]
  obtain ret n where "alignment_loop tbl es ent (ents fl) ((0, 0), 0) = Inr (ret, n)"
    by (metis surj_pair)
  then show ?thesis
    using assms(2) truncate_MAX_FORCE_defined
    by (simp add: alignment_force_def del: PFM_Vec2_Scale.simps PFM_Vec2_Sub.simps)
qed

lemma cohesion_force_defined: "\<exists>f. cohesion_force es ent fl tick_res = Inr f"
  using truncate_MAX_FORCE_defined
  by (simp add: cohesion_force_def split: prod.splits del: PFM_Vec2_Scale.simps PFM_Vec2_Sub.simps)

lemma separation_force_defined: "\<exists>f. separation_force es ent fl tick_res buffer_dist = Inr f"
  using truncate_MAX_FORCE_defined
  by (simp add: separation_force_def split: prod.splits del: PFM_Vec2_Scale.simps)

lemma arrive_force_defined:
  assumes "tbl ent = Some ms" and "xz (es ent) \<noteq> target_xz fl" and "tick_res \<noteq> 0"
  shows "\<exists>f. arrive_force tbl es ent fl tick_res = Inr f"
proof -
  have "PFM_Vec2_Len (PFM_Vec2_Sub (target_xz fl) (xz (es ent))) \<noteq> 0"
    using assms(2) by (auto simp: Len_eq_0_iff Sub_eq_0_iff)
  then show ?thesis
    using assms(1,3)
    by (simp add: arrive_force_def Normal_defined speed_per_tick_def Let_def
        MAX_FORCE_def vec2_truncate_clamp
        del: PFM_Vec2_Len.simps PFM_Vec2_Sub.simps PFM_Vec2_Scale.simps)
qed

lemma total_steering_force_defined:
  assumes "tbl ent = Some ms" and "\<forall>u\<in>set (ents fl). tbl u \<noteq> None" and "tick_res \<noteq> 0"
    and "state ms = STATE_MOVING \<longrightarrow> xz (es ent) \<noteq> target_xz fl"
  shows "\<exists>f. total_steering_force tbl es ent fl tick_res = Inr f"
proof -
  obtain c where c: "cohesion_force es ent fl tick_res = Inr c"
    using cohesion_force_defined by blast
  obtain a where a: "alignment_force tbl es ent fl tick_res = Inr a"
    using alignment_force_defined [OF assms(2,1)] by blast
  show ?thesis
  proof (cases "state ms")
    case STATE_MOVING
    with assms(4) have "xz (es ent) \<noteq> target_xz fl" by simp
    from arrive_force_defined [where es = es and tbl = tbl and ent = ent, OF assms(1) this assms(3)]
    obtain ar where ar: "arrive_force tbl es ent fl tick_res = Inr ar" by blast
    obtain s where s: "separation_force es ent fl tick_res MOVE_SEPARATION_BUFFER_DIST = Inr s"
      using separation_force_defined by blast
    show ?thesis
      using truncate_MAX_FORCE_defined
      by (simp add: total_steering_force_def assms(1) c a ar s STATE_MOVING
          del: PFM_Vec2_Add.simps PFM_Vec2_Scale.simps)
  next
    case STATE_SETTLING
    obtain s where s: "separation_force es ent fl tick_res SETTLE_SEPARATION_BUFFER_DIST = Inr s"
      using separation_force_defined by blast
    show ?thesis
      using truncate_MAX_FORCE_defined
      by (simp add: total_steering_force_def assms(1) c a s STATE_SETTLING
          del: PFM_Vec2_Add.simps PFM_Vec2_Scale.simps)
  next
    case STATE_ARRIVED
    show ?thesis
      using truncate_MAX_FORCE_defined
      by (simp add: total_steering_force_def assms(1) c a STATE_ARRIVED)
  qed
qed

lemma adjacent_settled_defined:
  "\<forall>u\<in>set xs. tbl u \<noteq> None \<Longrightarrow> \<exists>b. adjacent_settled tbl xs = Inr b"
  by (induction xs) auto

lemma can_disband_defined:
  "\<forall>u\<in>set xs. tbl u \<noteq> None \<Longrightarrow> \<exists>b. can_disband tbl xs = Inr b"
  by (induction xs) auto

lemma update_entity_defined:
  assumes "ready w fl cur" and "\<forall>u\<in>set (ents fl). s_entity_state_table w u \<noteq> None"
  shows "\<exists>w'. update_entity s_map fl cur w = Inr w'"
proof -
  from assms(1) obtain ms where ms: "s_entity_state_table w cur = Some ms"
    and off: "state ms = STATE_MOVING \<longrightarrow> xz (entities w cur) \<noteq> target_xz fl"
    and nn: "0 \<le> max_speed (entities w cur)"
    by (auto simp: ready_def)
  have "TICK_RES \<noteq> 0" by (simp add: TICK_RES_def)
  from total_steering_force_defined [where es = "entities w" and tbl = "s_entity_state_table w" and ent = cur, OF ms assms(2) this off]
  obtain f where f: "total_steering_force (s_entity_state_table w) (entities w) cur fl TICK_RES = Inr f"
    by blast
  have "0 \<le> max_speed (entities w cur) / real_of_int TICK_RES"
    using nn by (simp add: TICK_RES_def)
  from vec2_truncate_defined [OF this]
  obtain nv where nv: "vec2_truncate
             (PFM_Vec2_Add (velocity ms) (PFM_Vec2_Scale f (1 / ENTITY_MASS)))
             (max_speed (entities w cur) / real_of_int TICK_RES) = Inr nv"
    by blast
  have adj: "\<And>tbl es. \<forall>u\<in>set (ents fl). tbl u \<noteq> None \<Longrightarrow>
          \<exists>b. adjacent_settled tbl (adjacent_flock_members es cur fl) = Inr b"
    by (rule adjacent_settled_defined) (simp add: adjacent_flock_members_def)
  show ?thesis
  proof (cases "state ms")
    case STATE_MOVING
    let ?es = "(entities w)(cur := moved_to s_map (entities w cur) nv)"
    let ?arrived = "PFM_Vec2_Len (PFM_Vec2_Sub (target_xz fl) (xz (?es cur))) < ARRIVE_THRESHOLD_DIST"
    let ?ms2 = "if ?arrived then \<lparr>velocity = (0, 0), state = STATE_ARRIVED\<rparr> else ms\<lparr>velocity := nv\<rparr>"
    have "\<forall>u\<in>set (ents fl). ((s_entity_state_table w)(cur \<mapsto> ?ms2)) u \<noteq> None"
      using assms(2) by simp
    from adj [OF this, of ?es]
    obtain b where "adjacent_settled ((s_entity_state_table w)(cur \<mapsto> ?ms2))
        (adjacent_flock_members ?es cur fl) = Inr b" by blast
    then show ?thesis
      using STATE_MOVING
      by (simp add: update_entity_def f ms nv moved_to_def Let_def del: PFM_Vec2_Len.simps)
  next
    case STATE_SETTLING
    then show ?thesis
      by (simp add: update_entity_def f ms nv Let_def del: PFM_Vec2_Len.simps)
  next
    case STATE_ARRIVED
    then show ?thesis
      by (simp add: update_entity_def f ms nv Let_def)
  qed
qed

lemma ready_untouched: "untouched u w w' \<Longrightarrow> ready w fl u \<Longrightarrow> ready w' fl u"
  by (simp add: untouched_def ready_def)

lemma states_kept_step:
  assumes "update_entity s_map fl cur w = Inr w'" and "s_entity_state_table w u \<noteq> None"
  shows "s_entity_state_table w' u \<noteq> None"
  using assms by (auto elim!: update_entity_cases)

lemma update_members_defined:
  assumes "distinct xs" and "\<forall>u\<in>set xs. ready w fl u"
    and "\<forall>u\<in>set (ents fl). s_entity_state_table w u \<noteq> None"
  shows "\<exists>w'. update_members s_map fl xs w = Inr w'"
  using assms
proof (induction xs arbitrary: w)
  case Nil
  then show ?case by simp
next
  case (Cons cur xs)
  from Cons.prems(2) have "ready w fl cur" by simp
  from update_entity_defined [OF this Cons.prems(3)]
  obtain w1 where 1: "update_entity s_map fl cur w = Inr w1" by blast
  have r1: "\<forall>u\<in>set xs. ready w1 fl u"
  proof
    fix u assume u: "u \<in> set xs"
    with Cons.prems(1) have "u \<noteq> cur" by auto
    with 1 have "untouched u w w1" by (rule untouched_step)
    moreover from Cons.prems(2) u have "ready w fl u" by simp
    ultimately show "ready w1 fl u" by (rule ready_untouched)
  qed
  have s1: "\<forall>u\<in>set (ents fl). s_entity_state_table w1 u \<noteq> None"
    using Cons.prems(3) states_kept_step [OF 1] by blast
  from Cons.prems(1) have "distinct xs" by simp
  from Cons.IH [OF this r1 s1] show ?case by (simp add: 1)
qed

lemma one_flock_each_snoc:
  "one_flock_each (fs @ [fl]) \<longleftrightarrow>
     one_flock_each fs \<and> distinct (ents fl) \<and> (\<forall>g\<in>set fs. set (ents g) \<inter> set (ents fl) = {})"
  by (auto simp: one_flock_each_def)

lemma tick_flocks_defined:
  assumes "i \<le> length (s_flocks w)" and "one_flock_each (take i (s_flocks w))"
    and "\<forall>fl\<in>set (take i (s_flocks w)). \<forall>u\<in>set (ents fl). ready w fl u"
  shows "\<exists>w'. tick_flocks s_map i w = Inr w'"
  using assms
proof (induction i arbitrary: w)
  case 0
  then show ?case by simp
next
  case (Suc i)
  then have i: "i < length (s_flocks w)" by simp
  let ?fl = "s_flocks w ! i"
  have tk: "take (Suc i) (s_flocks w) = take i (s_flocks w) @ [?fl]"
    using i by (simp add: take_Suc_conv_app_nth)
  from Suc.prems(2) have one: "one_flock_each (take i (s_flocks w))"
    and dist: "distinct (ents ?fl)"
    and disj: "\<forall>g\<in>set (take i (s_flocks w)). set (ents g) \<inter> set (ents ?fl) = {}"
    by (simp_all add: tk one_flock_each_snoc)
  from Suc.prems(3) have rfl: "\<forall>u\<in>set (ents ?fl). ready w ?fl u"
    and rest: "\<forall>g\<in>set (take i (s_flocks w)). \<forall>u\<in>set (ents g). ready w g u"
    by (simp_all add: tk)
  from rfl have st: "\<forall>u\<in>set (ents ?fl). s_entity_state_table w u \<noteq> None"
    by (auto simp: ready_def)
  from can_disband_defined [OF st]
  obtain disband where d: "can_disband (s_entity_state_table w) (ents ?fl) = Inr disband"
    by blast
  show ?case
  proof (cases disband)
    case True
    let ?w1 = "w\<lparr>s_flocks := kv_del (s_flocks w) i\<rparr>"
    have 1: "i \<le> length (s_flocks ?w1)" using i by (simp add: length_kv_del)
    have 2: "one_flock_each (take i (s_flocks ?w1))" using one i by (simp add: take_kv_del)
    have 3: "\<forall>g\<in>set (take i (s_flocks ?w1)). \<forall>u\<in>set (ents g). ready ?w1 g u"
      using rest i by (simp add: take_kv_del ready_def)
    from Suc.IH [OF 1 2 3] show ?thesis using d True by (simp add: Let_def)
  next
    case False
    from update_members_defined [OF dist rfl st]
    obtain w1 where m: "update_members s_map ?fl (ents ?fl) w = Inr w1" by blast
    have fl1: "s_flocks w1 = s_flocks w" using m by (rule flocks_kept_members)
    have 1: "i \<le> length (s_flocks w1)" using i fl1 by simp
    have 2: "one_flock_each (take i (s_flocks w1))" using one fl1 by simp
    have 3: "\<forall>g\<in>set (take i (s_flocks w1)). \<forall>u\<in>set (ents g). ready w1 g u"
    proof (intro ballI)
      fix g u assume g: "g \<in> set (take i (s_flocks w1))" and u: "u \<in> set (ents g)"
      from g fl1 have g': "g \<in> set (take i (s_flocks w))" by simp
      with disj u have "u \<notin> set (ents ?fl)" by auto
      with m have "untouched u w w1" by (rule untouched_members)
      moreover from rest g' u have "ready w g u" by simp
      ultimately show "ready w1 g u" by (rule ready_untouched)
    qed
    from Suc.IH [OF 1 2 3] show ?thesis using d False m by (simp add: Let_def)
  qed
qed

lemma on_30hz_tick_defined:
  "tick_ready w \<Longrightarrow> \<exists>w'. on_30hz_tick s_map w = Inr w'"
  unfolding on_30hz_tick_def tick_ready_def
  by (rule tick_flocks_defined) simp_all

lemma enrol_defined:
  assumes "distinct (eligible_in es sel)" and "set (eligible_in es sel) \<inter> set new_ents = {}"
  shows "\<exists>r. enrol es sel (new_ents, tbl, evs) = Inr r"
  using assms
proof (induction sel arbitrary: new_ents tbl evs)
  case Nil
  then show ?case by simp
next
  case (Cons c sel)
  show ?case
  proof (cases "eligible (es c)")
    case False
    with Cons show ?thesis by (simp add: eligible_in_Cons)
  next
    case True
    with Cons.prems have d: "distinct (eligible_in es sel)"
      and c: "c \<notin> set new_ents"
      and i: "set (eligible_in es sel) \<inter> set (new_ents @ [c]) = {}"
      by (auto simp: eligible_in_Cons)
    from Cons.IH [OF d i] True c show ?thesis
      by (cases "tbl c") simp_all
  qed
qed

lemma make_flock_defined:
  assumes "distinct (eligible_in (entities w) sel)"
  shows "\<exists>w'. make_flock_from_selection kh_init_ok sel target w = Inr (kh_init_ok, w')"
proof (cases kh_init_ok)
  case False
  then show ?thesis by (simp add: make_flock_from_selection_def Let_def)
next
  case True
  from enrol_defined [OF assms, of "[]" "s_entity_state_table w" "notified w"]
  obtain a b c where "enrol (entities w) sel ([], s_entity_state_table w, notified w) = Inr (a, b, c)"
    by (auto simp: prod_eq_iff)
  with True show ?thesis by (simp add: make_flock_from_selection_def Let_def)
qed

subsection \<open>Every entity is in at most one flock\<close>

lemma tick_flocks_submultiset:
  assumes "tick_flocks s_map i w = Inr w'" and "i \<le> length (s_flocks w)"
  shows "mset (s_flocks w') \<subseteq># mset (s_flocks w)"
  using assms
proof (induction i arbitrary: w)
  case 0
  then show ?case by simp
next
  case (Suc i)
  then have i: "i < length (s_flocks w)" by simp
  let ?fl = "s_flocks w ! i"
  from Suc.prems obtain disband where d: "can_disband (s_entity_state_table w) (ents ?fl) = Inr disband"
    by (auto simp: Let_def split: sum.splits)
  show ?case
  proof (cases disband)
    case True
    let ?w1 = "w\<lparr>s_flocks := kv_del (s_flocks w) i\<rparr>"
    from True Suc.prems d have t: "tick_flocks s_map i ?w1 = Inr w'"
      by (simp add: Let_def)
    have l: "i \<le> length (s_flocks ?w1)" using i by (simp add: length_kv_del)
    have "mset (kv_del (s_flocks w) i) \<subseteq># add_mset ?fl (mset (kv_del (s_flocks w) i))"
      by simp
    then have "mset (kv_del (s_flocks w) i) \<subseteq># mset (s_flocks w)"
      by (simp only: mset_kv_del [OF i])
    with Suc.IH [OF t l] show ?thesis by (simp add: subset_mset.order_trans)
  next
    case False
    with Suc.prems d obtain w1 where 1: "update_members s_map ?fl (ents ?fl) w = Inr w1"
      and 2: "tick_flocks s_map i w1 = Inr w'"
      by (auto simp: Let_def split: sum.splits)
    have fl1: "s_flocks w1 = s_flocks w" using 1 by (rule flocks_kept_members)
    have l: "i \<le> length (s_flocks w1)" using i fl1 by simp
    from Suc.IH [OF 2 l] show ?thesis by (simp add: fl1)
  qed
qed

lemma distinct_iff_count_le_1: "distinct xs \<longleftrightarrow> (\<forall>a. count (mset xs) a \<le> 1)"
proof
  assume "distinct xs"
  then show "\<forall>a. count (mset xs) a \<le> 1"
    by (simp add: distinct_count_atmost_1)
next
  assume le: "\<forall>a. count (mset xs) a \<le> 1"
  show "distinct xs"
    unfolding distinct_count_atmost_1
  proof
    fix a
    show "count (mset xs) a = (if a \<in> set xs then 1 else 0)"
    proof (cases "a \<in> set xs")
      case True
      then have "0 < count (mset xs) a" by simp
      with le [rule_format, of a] have "count (mset xs) a = 1" by linarith
      with True show ?thesis by simp
    next
      case False
      then show ?thesis by (simp add: count_eq_zero_iff)
    qed
  qed
qed

lemma flock_members_mset: "flock_members (mset fs) = mset (concat (map ents fs))"
  by (induction fs) (simp_all add: flock_members_def)

lemma one_flock_each_count:
  "one_flock_each fs \<longleftrightarrow> (\<forall>u. count (flock_members (mset fs)) u \<le> 1)"
  by (simp add: one_flock_each_def flock_members_mset distinct_iff_count_le_1)

lemma flock_members_mono: "M \<subseteq># N \<Longrightarrow> flock_members M \<subseteq># flock_members N"
  by (auto simp: flock_members_def mset_subset_eq_exists_conv)

lemma flock_members_strip:
  "flock_members (filter_mset has_members (image_mset (strip_flock S) M)) \<subseteq># flock_members M"
proof (induction M)
  case empty
  then show ?case by simp
next
  case (add f M)
  have "mset (filter (\<lambda>u. u \<notin> S) (ents f)) \<subseteq># mset (ents f)"
    by simp
  then have 1: "mset (ents (strip_flock S f)) \<subseteq># mset (ents f)"
    by (simp add: strip_flock_def)
  have 2: "flock_members (add_mset f M) = mset (ents f) + flock_members M"
    by (simp add: flock_members_def)
  show ?case
  proof (cases "has_members (strip_flock S f)")
    case True
    then have "flock_members (filter_mset has_members (image_mset (strip_flock S) (add_mset f M))) =
       mset (ents (strip_flock S f)) + flock_members (filter_mset has_members (image_mset (strip_flock S) M))"
      by (simp add: flock_members_def)
    with 1 2 add.IH show ?thesis by (simp add: subset_mset.add_mono)
  next
    case False
    then have "flock_members (filter_mset has_members (image_mset (strip_flock S) (add_mset f M))) =
       flock_members (filter_mset has_members (image_mset (strip_flock S) M))"
      by simp
    with 2 add.IH show ?thesis
      by (simp add: subset_mset.add_increasing)
  qed
qed

lemma flock_members_strip_absent:
  "u \<in> S \<Longrightarrow> count (flock_members (filter_mset has_members (image_mset (strip_flock S) M))) u = 0"
  by (induction M) (auto simp: flock_members_def strip_flock_def count_eq_zero_iff)

lemma one_flock_each_submultiset:
  assumes "one_flock_each fs" and "mset gs \<subseteq># mset fs"
  shows "one_flock_each gs"
  unfolding one_flock_each_count
proof
  fix u
  have "count (flock_members (mset gs)) u \<le> count (flock_members (mset fs)) u"
    using flock_members_mono [OF assms(2)] by (simp add: mset_subset_eq_count)
  also have "\<dots> \<le> 1" using assms(1) by (simp add: one_flock_each_count)
  finally show "count (flock_members (mset gs)) u \<le> 1" .
qed

lemma one_flock_each_removed:
  assumes "one_flock_each fs"
  shows "one_flock_each (remove_selection es sel fs)"
proof -
  have "mset (remove_selection es sel fs) \<subseteq># mset fs
      \<or> flock_members (mset (remove_selection es sel fs)) \<subseteq># flock_members (mset fs)"
    by (simp add: remove_selection_mset flock_members_strip)
  then have "flock_members (mset (remove_selection es sel fs)) \<subseteq># flock_members (mset fs)"
    by (auto dest: flock_members_mono)
  then have "\<And>u. count (flock_members (mset (remove_selection es sel fs))) u
                \<le> count (flock_members (mset fs)) u"
    by (simp add: mset_subset_eq_count)
  with assms show ?thesis
    unfolding one_flock_each_count by (meson order_trans)
qed

lemma one_flock_each_make_flock:
  assumes "make_flock_from_selection kh_init_ok sel target w = Inr (r, w')"
    and "one_flock_each (s_flocks w)"
  shows "one_flock_each (s_flocks w')"
proof (cases r)
  case False
  with assms(1) have "s_flocks w' = remove_selection (entities w) sel (s_flocks w)"
    by (auto dest: make_flock_failure(2))
  with assms(2) show ?thesis by (simp add: one_flock_each_removed)
next
  case True
  let ?E = "eligible_in (entities w) sel"
  let ?old = "remove_selection (entities w) sel (s_flocks w)"
  from True assms(1) have fl: "s_flocks w' = ?old @ [\<lparr>ents = ?E, target_xz = target\<rparr>]"
    and d: "distinct ?E"
    by (simp_all add: make_flock_success)
  have old: "one_flock_each ?old" using assms(2) by (rule one_flock_each_removed)
  have mm: "flock_members (mset (s_flocks w')) = flock_members (mset ?old) + mset ?E"
    by (simp add: fl flock_members_def)
  show ?thesis
    unfolding one_flock_each_count
  proof
    fix u
    show "count (flock_members (mset (s_flocks w'))) u \<le> 1"
    proof (cases "u \<in> set ?E")
      case True
      then have "?E \<noteq> []" by auto
      then have "count (flock_members (mset ?old)) u = 0"
        using True by (simp add: remove_selection_mset flock_members_strip_absent)
      moreover have "count (mset ?E) u \<le> 1" using d by (simp add: distinct_iff_count_le_1)
      ultimately show ?thesis unfolding mm count_union by linarith
    next
      case False
      then have "count (mset ?E) u = 0" by (simp add: count_eq_zero_iff)
      moreover have "count (flock_members (mset ?old)) u \<le> 1"
        using old by (simp add: one_flock_each_count)
      ultimately show ?thesis unfolding mm count_union by linarith
    qed
  qed
qed

lemma one_flock_each_tick:
  assumes "on_30hz_tick s_map w = Inr w'" and "one_flock_each (s_flocks w)"
  shows "one_flock_each (s_flocks w')"
  using assms(2) tick_flocks_submultiset [OF assms(1) [unfolded on_30hz_tick_def] order_refl]
  by (rule one_flock_each_submultiset)

text \<open>
  Claim C2. That no entity is listed twice in the registry is an invariant of
  \<open>make_flock_from_selection\<close> and of the tick. \<open>make_flock_from_selection\<close> leaves of the
  old flocks exactly these: each flock without the eligible entities of the selection,
  and, if the selection has an eligible entity, only those that still have a member
  (\<open>kv_del\<close> may change their order); on success the new flock, whose members are the
  eligible entities of the selection and whose target is the given one, is the last of
  the registry.
\<close>

theorem one_flock_per_entity:
  assumes "one_flock_each (s_flocks w)"
  shows "(make_flock_from_selection kh_init_ok sel target w = Inr (r, w') \<longrightarrow>
            one_flock_each (s_flocks w')
          \<and> mset (if r then butlast (s_flocks w') else s_flocks w') =
              (if eligible_in (entities w) sel = [] then mset (s_flocks w)
               else filter_mset has_members
                      (image_mset (strip_flock (set (eligible_in (entities w) sel)))
                         (mset (s_flocks w))))
          \<and> (r \<longrightarrow> s_flocks w' \<noteq> []
                 \<and> set (ents (last (s_flocks w'))) = set (eligible_in (entities w) sel)
                 \<and> target_xz (last (s_flocks w')) = target))
       \<and> (on_30hz_tick s_map w = Inr w'' \<longrightarrow> one_flock_each (s_flocks w''))"
proof (intro conjI impI)
  assume m: "make_flock_from_selection kh_init_ok sel target w = Inr (r, w')"
  from m assms show "one_flock_each (s_flocks w')" by (rule one_flock_each_make_flock)
  show "mset (if r then butlast (s_flocks w') else s_flocks w') =
              (if eligible_in (entities w) sel = [] then mset (s_flocks w)
               else filter_mset has_members
                      (image_mset (strip_flock (set (eligible_in (entities w) sel)))
                         (mset (s_flocks w))))"
  proof (cases r)
    case True
    with m show ?thesis
      by (simp add: make_flock_success(2) remove_selection_mset)
  next
    case False
    with m have "s_flocks w' = remove_selection (entities w) sel (s_flocks w)"
      by (auto dest: make_flock_failure(2))
    with False show ?thesis by (simp add: remove_selection_mset)
  qed
  assume r
  with m show "s_flocks w' \<noteq> []"
    and "set (ents (last (s_flocks w'))) = set (eligible_in (entities w) sel)"
    and "target_xz (last (s_flocks w')) = target"
    by (simp_all add: make_flock_success(2))
next
  assume "on_30hz_tick s_map w = Inr w''"
  from this assms show "one_flock_each (s_flocks w'')" by (rule one_flock_each_tick)
qed

theorem one_flock_per_entity_witness:
  "one_flock_each (s_flocks mixed_world)
   \<and> make_flock_from_selection True [0, 1, 3] (9, 9) mixed_world = Inr (True, mixed_after)
   \<and> one_flock_each (s_flocks mixed_after)
   \<and> set (ents (last (s_flocks mixed_after))) = set (eligible_in (entities mixed_world) [0, 1, 3])
   \<and> one_flock_each (s_flocks arrived_world)
   \<and> on_30hz_tick flat_map arrived_world = Inr (arrived_world\<lparr>s_flocks := []\<rparr>)
   \<and> one_flock_each (s_flocks (arrived_world\<lparr>s_flocks := []\<rparr>))"
proof -
  have 1: "one_flock_each (s_flocks mixed_world)"
    by (simp add: one_flock_each_def mixed_world_def)
  have 2: "one_flock_each (s_flocks arrived_world)"
    by (simp add: one_flock_each_def arrived_world_def)
  from one_flock_per_entity [OF 1, where kh_init_ok = True and sel = "[0, 1, 3]"
      and target = "(9, 9)" and r = True and w' = mixed_after]
    one_flock_per_entity [OF 2, where s_map = flat_map and w'' = "arrived_world\<lparr>s_flocks := []\<rparr>"]
    1 2 mixed_make_flock arrived_tick
  show ?thesis by blast
qed

text \<open>The invariants hold in the world that \<open>G_Move_Init\<close> leaves, which is ready for a tick.\<close>

lemma initial_world:
  "one_flock_each (s_flocks (G_Move_Init es))
   \<and> arrived_at_rest (s_entity_state_table (G_Move_Init es))
   \<and> tick_ready (G_Move_Init es)"
  by (simp add: G_Move_Init_def one_flock_each_def arrived_at_rest_def tick_ready_def)

end
